theory Spec2Isabelle
  imports Complex_Main
begin

section \<open>The Chebyshev filter of EleChASE (\<^verbatim>\<open>EleChASE/include/filter.hpp\<close>)\<close>

text \<open>
  The theory embeds the function \<^verbatim>\<open>filter\<close> of \<^verbatim>\<open>filter.hpp\<close>, as \<open>filter_cheb\<close>.

  \<^item> The scalar type \<^verbatim>\<open>F\<close> (and \<^verbatim>\<open>Real\<close>, the instantiation \<^verbatim>\<open>F = double\<close>) is a type
    variable with the operations \<open>0\<close>, \<open>1\<close>, \<open>+\<close>, \<open>-\<close>, \<open>*\<close>, \<open>/\<close> and \<open>abs\<close> and with no
    law assumed about them: nothing below depends on associativity, on exact rounding
    or on division being defined. The literal \<^verbatim>\<open>2.0\<close> is written \<open>1 + 1\<close>.
    \<^verbatim>\<open>std::isnan\<close> is a parameter \<open>isnan\<close> of the model.
  \<^item> The C++ \<^verbatim>\<open>int\<close> is modelled by \<open>int\<close>. Signed overflow is undefined in C++; the
    predicate \<open>valid_call\<close> below keeps every \<^verbatim>\<open>int\<close> of a run within \<open>INT_MAX\<close>.
  \<^item> A \<^verbatim>\<open>DistMatrix\<close> is a record of its height, its width and its columns. The
    distribution over the process grid is not modelled.
  \<^item> The three ways the routine can stop without returning are outcomes: the
    \<^verbatim>\<open>LogicError\<close> thrown by \<^verbatim>\<open>AssertValidSubmatrix\<close>, the \<^verbatim>\<open>exit(1)\<close> of the NaN scan,
    and undefined behaviour (a read outside \<^verbatim>\<open>degrees\<close>, a view outside its matrix, a
    product of matrices that do not conform). What is printed to \<^verbatim>\<open>std::cout\<close> is not
    modelled.
\<close>

subsection \<open>Matrices and the operations of the linear-algebra layer\<close>

datatype UpperOrLower = LOWER | UPPER

record 'a DistMatrix =
  Height :: nat
  Width :: nat
  Columns :: "'a list list"

definition wf_matrix :: "'a DistMatrix \<Rightarrow> bool" where
  "wf_matrix M \<longleftrightarrow>
     length (Columns M) = Width M \<and> list_all (\<lambda>c. length c = Height M) (Columns M)"

definition Entry :: "'a DistMatrix \<Rightarrow> nat \<Rightarrow> nat \<Rightarrow> 'a" where
  "Entry M i j = Columns M ! j ! i"

text \<open>
  Modelled from the spec: \<^verbatim>\<open>GetDiagonal(A)\<close> belongs to the linear-algebra layer
  (Elemental), which is not part of the sources. Section 6 of the specification asks for
  "get/set of the matrix diagonal": the vector of the entries \<open>A(i, i)\<close>.
\<close>

definition GetDiagonal :: "'a DistMatrix \<Rightarrow> 'a list" where
  "GetDiagonal A = map (\<lambda>i. Entry A i i) [0..<min (Height A) (Width A)]"

text \<open>
  Modelled from the spec: \<^verbatim>\<open>ShiftDiagonal(A, a)\<close> of the linear-algebra layer, "an
  in-place diagonal shift": \<open>a\<close> is added to every entry \<open>A(i, i)\<close>.
\<close>

definition ShiftDiagonal :: "'a::plus DistMatrix \<Rightarrow> 'a \<Rightarrow> 'a DistMatrix" where
  "ShiftDiagonal A a =
     A\<lparr>Columns :=
         map (\<lambda>j. if j < min (Height A) (Width A)
                   then (Columns A ! j)[j := Entry A j j + a]
                   else Columns A ! j)
             [0..<length (Columns A)]\<rparr>"

text \<open>
  Modelled from the spec: \<^verbatim>\<open>SetDiagonal(A, d)\<close> of the linear-algebra layer, the "set" of
  "get/set of the matrix diagonal": the entry \<open>A(i, i)\<close> becomes \<open>d[i]\<close>.
\<close>

definition SetDiagonal :: "'a DistMatrix \<Rightarrow> 'a list \<Rightarrow> 'a DistMatrix" where
  "SetDiagonal A d =
     A\<lparr>Columns :=
         map (\<lambda>j. if j < length d then (Columns A ! j)[j := d ! j] else Columns A ! j)
             [0..<length (Columns A)]\<rparr>"

text \<open>
  Modelled from the spec: \<^verbatim>\<open>EntrywiseNorm(M, 1)\<close> of the linear-algebra layer, "an
  entrywise norm usable for the optional diagnostic check": the sum of the absolute
  values of all entries of the matrix.
\<close>

definition EntrywiseNorm :: "'a::{zero,plus,abs} DistMatrix \<Rightarrow> 'a" where
  "EntrywiseNorm M = foldl (+) 0 (map abs (concat (Columns M)))"

text \<open>
  Modelled from the spec: \<^verbatim>\<open>AssertValidSubmatrix(i, j, height, width)\<close> of the
  linear-algebra layer. The specification's precondition is that the matrix has at least
  \<open>j + width\<close> columns and \<open>i + height\<close> rows; offsets and sizes are not negative. The
  value \<open>False\<close> stands for the \<^verbatim>\<open>LogicError\<close> that is thrown.
\<close>

definition AssertValidSubmatrix :: "'a DistMatrix \<Rightarrow> int \<Rightarrow> int \<Rightarrow> int \<Rightarrow> int \<Rightarrow> bool" where
  "AssertValidSubmatrix M i j height width \<longleftrightarrow>
     0 \<le> i \<and> 0 \<le> j \<and> 0 \<le> height \<and> 0 \<le> width \<and>
     i + height \<le> int (Height M) \<and> j + width \<le> int (Width M)"

text \<open>
  Modelled from the spec: \<^verbatim>\<open>View(B_view, B, 0, j, height, width)\<close>, "a non-owning
  column-range view of a distributed matrix without copying". A view is the descriptor of
  the block it aliases; \<^verbatim>\<open>filter\<close> only takes views that begin at row 0. A view that
  does not lie inside the matrix is undefined behaviour (\<open>None\<close>).
\<close>

record View =
  vcol :: nat
  vheight :: nat
  vwidth :: nat

definition View :: "'a DistMatrix \<Rightarrow> int \<Rightarrow> int \<Rightarrow> int \<Rightarrow> View option" where
  "View B j height width =
     (if AssertValidSubmatrix B 0 j height width
      then Some \<lparr>vcol = nat j, vheight = nat height, vwidth = nat width\<rparr>
      else None)"

text \<open>
  Modelled from the spec: the entry \<open>(i, k)\<close> of the Hermitian operator as
  \<^verbatim>\<open>Hemm(LEFT, uplo, ...)\<close> of the linear-algebra layer reads it. Only the triangle of \<open>A\<close>
  named by \<open>uplo\<close> is read, the other one is its mirror image (on real scalars
  conjugation is the identity).
\<close>

definition HermitianEntry :: "UpperOrLower \<Rightarrow> 'a DistMatrix \<Rightarrow> nat \<Rightarrow> nat \<Rightarrow> 'a" where
  "HermitianEntry uplo A i k =
     (case uplo of
        LOWER \<Rightarrow> if k \<le> i then Entry A i k else Entry A k i
      | UPPER \<Rightarrow> if i \<le> k then Entry A i k else Entry A k i)"

text \<open>
  Modelled from the spec: one column of \<open>C \<leftarrow> alpha A B + beta C\<close>, the "Hermitian
  matrix-matrix multiply" of the linear-algebra layer: the column \<open>y\<close> of \<open>C\<close> becomes
  \<open>alpha A x + beta y\<close> on the rows of \<open>A\<close>, for the column \<open>x\<close> of \<open>B\<close>.
\<close>

definition hemm_column ::
  "UpperOrLower \<Rightarrow> 'a::{zero,plus,times} \<Rightarrow> 'a DistMatrix \<Rightarrow> 'a list \<Rightarrow> 'a \<Rightarrow> 'a list \<Rightarrow> 'a list"
where
  "hemm_column uplo alpha A x beta y =
     map (\<lambda>i. if i < Height A
               then alpha * foldl (\<lambda>s k. s + HermitianEntry uplo A i k * x ! k) 0 [0..<Height A]
                    + beta * y ! i
               else y ! i)
         [0..<length y]"

text \<open>
  Modelled from the spec: \<^verbatim>\<open>Hemm(LEFT, uplo, alpha, A, B_view, beta, C_view)\<close>, the
  product "restricted to a column sub-range" of \<open>B\<close> and \<open>C\<close>. Each column of the view of \<open>C\<close>
  is computed from the same column of the view of \<open>B\<close>; the columns outside the view stay.
  Matrices that do not conform are undefined behaviour (\<open>None\<close>).
\<close>

definition Hemm ::
  "UpperOrLower \<Rightarrow> 'a::{zero,plus,times} \<Rightarrow> 'a DistMatrix \<Rightarrow> 'a DistMatrix \<Rightarrow> View \<Rightarrow> 'a \<Rightarrow>
   'a DistMatrix \<Rightarrow> View \<Rightarrow> 'a DistMatrix option"
where
  "Hemm uplo alpha A B bv beta C cv =
     (if Height A = Width A \<and> vheight bv = Height A \<and> vheight cv = Height A \<and>
         vwidth bv = vwidth cv
      then Some (C\<lparr>Columns :=
                     map (\<lambda>j. if vcol cv \<le> j \<and> j < vcol cv + vwidth cv
                               then hemm_column uplo alpha A
                                      (Columns B ! (vcol bv + (j - vcol cv))) beta (Columns C ! j)
                               else Columns C ! j)
                         [0..<length (Columns C)]\<rparr>)
      else None)"

text \<open>
  Modelled from the spec: the assignment \<^verbatim>\<open>W_view = V_view\<close> of two views of the same
  shape copies the block that \<open>V_view\<close> aliases into the block that \<open>W_view\<close> aliases.
\<close>

definition CopyView :: "'a DistMatrix \<Rightarrow> View \<Rightarrow> 'a DistMatrix \<Rightarrow> View \<Rightarrow> 'a DistMatrix" where
  "CopyView B bv C cv =
     C\<lparr>Columns :=
         map (\<lambda>j. if vcol cv \<le> j \<and> j < vcol cv + vwidth cv
                   then take (vheight cv) (Columns B ! (vcol bv + (j - vcol cv)))
                        @ drop (vheight cv) (Columns C ! j)
                   else Columns C ! j)
             [0..<length (Columns C)]\<rparr>"

subsection \<open>The routine\<close>

datatype outcome = Returned int | LogicError | Exit int | Undefined

text \<open>
  Lines 80-82: \<^verbatim>\<open>degmax = deg; if (degrees != NULL) degmax = (deg >= degrees[deglen-1]) ?
  deg : degrees[deglen-1];\<close>. The array behind \<^verbatim>\<open>degrees\<close> is the list \<open>ds\<close>; reading it
  outside \<open>[0, length ds)\<close> has no defined result (\<open>None\<close>).
\<close>

definition degmax_of :: "int \<Rightarrow> int list option \<Rightarrow> int \<Rightarrow> int option" where
  "degmax_of deg degrees deglen =
     (case degrees of
        None \<Rightarrow> Some deg
      | Some ds \<Rightarrow>
          if 0 \<le> deglen - 1 \<and> deglen - 1 < int (length ds)
          then Some (if deg \<ge> ds ! nat (deglen - 1) then deg else ds ! nat (deglen - 1))
          else None)"

text \<open>
  \<^verbatim>\<open>while (j < deglen && degrees[j] == i) ++j;\<close> (lines 162 and 200). The routine runs
  it only after \<open>degmax_of\<close> has read \<^verbatim>\<open>degrees[deglen-1]\<close>, and \<open>j\<close> starts at 0, so every
  index it reads lies inside the array.
\<close>

function skip_degrees :: "int list \<Rightarrow> int \<Rightarrow> int \<Rightarrow> int \<Rightarrow> int" where
  "skip_degrees ds deglen i j =
     (if j < deglen \<and> ds ! nat j = i then skip_degrees ds deglen i (j + 1) else j)"
  by pat_completeness auto
termination
  by (relation "measure (\<lambda>(ds, deglen, i, j). nat (deglen - j))") auto

declare skip_degrees.simps [simp del]

text \<open>The \<^verbatim>\<open>#ifdef SEARCH_NAN\<close> blocks (lines 101-124 and 130-155): the value of \<^verbatim>\<open>fail\<close>.\<close>

definition search_nan ::
  "('a::{zero,plus,abs} \<Rightarrow> bool) \<Rightarrow> 'a DistMatrix \<Rightarrow> 'a DistMatrix \<Rightarrow> 'a DistMatrix \<Rightarrow> bool"
where
  "search_nan isnan V W A \<longleftrightarrow>
     isnan (EntrywiseNorm V) \<or> isnan (EntrywiseNorm W) \<or> isnan (EntrywiseNorm A)"

text \<open>The variables that the recurrence changes.\<close>

record 'a filter_state =
  st_V :: "'a DistMatrix"
  st_W :: "'a DistMatrix"
  st_start :: int
  st_width :: int
  st_j :: int
  st_sigma :: 'a
  st_total :: int

text \<open>Lines 160-166: the vectors of degree 1 leave the active range.\<close>

definition deflate_first :: "int list option \<Rightarrow> int \<Rightarrow> 'a filter_state \<Rightarrow> 'a filter_state" where
  "deflate_first degrees deglen s =
     (case degrees of
        None \<Rightarrow> s
      | Some ds \<Rightarrow>
          (let j = skip_degrees ds deglen 1 (st_j s)
           in s\<lparr>st_j := j, st_width := st_width s - j, st_start := st_start s + j\<rparr>))"

text \<open>Lines 197-212: the vectors of degree \<open>i\<close> leave the active range.\<close>

definition deflate ::
  "int list option \<Rightarrow> int \<Rightarrow> int \<Rightarrow> int \<Rightarrow> 'a filter_state \<Rightarrow> 'a filter_state option"
where
  "deflate degrees deglen N i s =
     (case degrees of
        None \<Rightarrow> Some s
      | Some ds \<Rightarrow>
          (let j = skip_degrees ds deglen i (st_j s);
               local_vcts_filtered = j - st_j s;
               s1 = s\<lparr>st_j := j, st_width := st_width s - local_vcts_filtered\<rparr>
           in if i mod 2 = 0 \<and> local_vcts_filtered > 0
              then (case (View (st_V s1) (st_start s1) N local_vcts_filtered,
                          View (st_W s1) (st_start s1) N local_vcts_filtered) of
                      (Some V_view, Some W_view) \<Rightarrow>
                        Some (s1\<lparr>st_W := CopyView (st_V s1) V_view (st_W s1) W_view,
                                 st_start := st_start s1 + local_vcts_filtered\<rparr>)
                    | _ \<Rightarrow> None)
              else Some (s1\<lparr>st_start := st_start s1 + local_vcts_filtered\<rparr>)))"

text \<open>Lines 171-212: the body of the loop, for the degree \<open>i\<close>.\<close>

definition filter_step ::
  "UpperOrLower \<Rightarrow> 'a::{zero,one,plus,minus,uminus,times,inverse} DistMatrix \<Rightarrow> 'a \<Rightarrow> 'a \<Rightarrow>
   int list option \<Rightarrow> int \<Rightarrow> int \<Rightarrow> 'a filter_state \<Rightarrow> 'a filter_state option"
where
  "filter_step uplo A e sigma_scale degrees deglen i s =
     (let N = int (Height A);
          sigma_new = 1 / ((1 + 1) / sigma_scale - st_sigma s);
          alpha = (1 + 1) * sigma_new / e;
          beta = - st_sigma s * sigma_new
      in case (View (st_V s) (st_start s) N (st_width s),
               View (st_W s) (st_start s) N (st_width s)) of
           (Some V_view, Some W_view) \<Rightarrow>
             (case (if i mod 2 = 0
                    then map_option (\<lambda>V'. s\<lparr>st_V := V'\<rparr>)
                           (Hemm uplo alpha A (st_W s) W_view beta (st_V s) V_view)
                    else map_option (\<lambda>W'. s\<lparr>st_W := W'\<rparr>)
                           (Hemm uplo alpha A (st_V s) V_view beta (st_W s) W_view)) of
                None \<Rightarrow> None
              | Some s1 \<Rightarrow>
                  deflate degrees deglen N i
                    (s1\<lparr>st_total := st_total s1 + st_width s1, st_sigma := sigma_new\<rparr>))
         | _ \<Rightarrow> None)"

text \<open>Line 169: \<^verbatim>\<open>for (int i = 2; i <= degmax; ++i)\<close>.\<close>

function filter_loop ::
  "UpperOrLower \<Rightarrow> 'a::{zero,one,plus,minus,uminus,times,inverse} DistMatrix \<Rightarrow> 'a \<Rightarrow> 'a \<Rightarrow>
   int list option \<Rightarrow> int \<Rightarrow> int \<Rightarrow> int \<Rightarrow> 'a filter_state \<Rightarrow> 'a filter_state option"
where
  "filter_loop uplo A e sigma_scale degrees deglen degmax i s =
     (if i \<le> degmax
      then (case filter_step uplo A e sigma_scale degrees deglen i s of
              None \<Rightarrow> None
            | Some s' \<Rightarrow> filter_loop uplo A e sigma_scale degrees deglen degmax (i + 1) s')
      else Some s)"
  by pat_completeness auto
termination
  by (relation "measure (\<lambda>(uplo, A, e, sigma_scale, degrees, deglen, degmax, i, s).
                  nat (degmax + 1 - i))") auto

declare filter_loop.simps [simp del]

text \<open>
  Lines 52-229. The result is the outcome together with \<open>A\<close>, \<open>V\<close> and \<open>W\<close> as the routine
  leaves them. \<^verbatim>\<open>SEARCH_NAN\<close> is defined on line 17, so both scans are compiled in.
\<close>

definition filter_cheb ::
  "('a::{zero,one,plus,minus,uminus,times,inverse,abs} \<Rightarrow> bool) \<Rightarrow> UpperOrLower \<Rightarrow>
   'a DistMatrix \<Rightarrow> 'a DistMatrix \<Rightarrow> 'a DistMatrix \<Rightarrow> int \<Rightarrow> int \<Rightarrow> int \<Rightarrow> int list option \<Rightarrow>
   int \<Rightarrow> 'a \<Rightarrow> 'a \<Rightarrow> 'a \<Rightarrow> outcome \<times> 'a DistMatrix \<times> 'a DistMatrix \<times> 'a DistMatrix"
where
  "filter_cheb isnan uplo A V W start width deg degrees deglen lambda lower upper =
     (let c = (upper + lower) / (1 + 1);
          e = (upper - lower) / (1 + 1);
          sigma_scale = e / (lambda - c);
          N = int (Height A)
      in case degmax_of deg degrees deglen of
           None \<Rightarrow> (Undefined, A, V, W)
         | Some degmax \<Rightarrow>
             if degmax = 0 then (Returned 0, A, V, W)
             else
               (let T = GetDiagonal A;
                    A' = ShiftDiagonal A (- c);
                    alpha = sigma_scale / e;
                    beta = 0
                in if \<not> AssertValidSubmatrix V 0 0 N (start + width) then (LogicError, A', V, W)
                   else if \<not> AssertValidSubmatrix W 0 0 N (start + width)
                   then (LogicError, A', V, W)
                   else
                     (case (View V start N width, View W start N width) of
                        (Some V_view, Some W_view) \<Rightarrow>
                          if search_nan isnan V W A' then (Exit 1, A', V, W)
                          else
                            (case Hemm uplo alpha A' V V_view beta W W_view of
                               None \<Rightarrow> (Undefined, A', V, W)
                             | Some W' \<Rightarrow>
                                 if search_nan isnan V W' A' then (Exit 1, A', V, W')
                                 else
                                   (case filter_loop uplo A' e sigma_scale degrees deglen degmax 2
                                           (deflate_first degrees deglen
                                              \<lparr>st_V = V, st_W = W', st_start = start,
                                               st_width = width, st_j = 0,
                                               st_sigma = sigma_scale,
                                               st_total = 0 + width\<rparr>) of
                                      None \<Rightarrow> (Undefined, A', V, W')
                                    | Some s \<Rightarrow>
                                        if degmax mod 2 = 0
                                        then (case (View (st_V s) (st_start s) N (st_width s),
                                                    View (st_W s) (st_start s) N (st_width s)) of
                                                (Some V_view, Some W_view) \<Rightarrow>
                                                  (Returned (st_total s), SetDiagonal A' T, st_V s,
                                                   CopyView (st_V s) V_view (st_W s) W_view)
                                              | _ \<Rightarrow> (Undefined, A', st_V s, st_W s))
                                        else (Returned (st_total s), SetDiagonal A' T,
                                              st_V s, st_W s)))
                      | _ \<Rightarrow> (Undefined, A', V, W))))"

subsection \<open>The recurrence on one vector\<close>

text \<open>
  The three-term recurrence as the specification words it (section 4.1, steps 2, 4, 5
  and 6), for a single vector \<open>v\<close> with its output column \<open>w\<close>, against the shifted
  operator. \<open>cheb_sigma sigma_scale d\<close> is the value of \<open>sigma\<close> once degree \<open>d\<close> is done:
  \<open>sigma = sigma_scale\<close> at first, then \<open>sigma_new = 1 / (2 / sigma_scale - sigma)\<close>.
\<close>

fun cheb_sigma :: "'a::{one,plus,minus,inverse} \<Rightarrow> nat \<Rightarrow> 'a" where
  "cheb_sigma sigma_scale 0 = sigma_scale"
| "cheb_sigma sigma_scale (Suc 0) = sigma_scale"
| "cheb_sigma sigma_scale (Suc (Suc n)) =
     1 / ((1 + 1) / sigma_scale - cheb_sigma sigma_scale (Suc n))"

text \<open>
  \<open>cheb_pair d (v, w)\<close> is the pair of buffers after degree \<open>d\<close>: the step of degree 1 is
  \<open>w = (sigma_scale / e) (A - cI) v\<close>, a step of even degree reads \<open>w\<close> and writes \<open>v\<close>, a
  step of odd degree reads \<open>v\<close> and writes \<open>w\<close>, with \<open>alpha = 2 sigma_new / e\<close> and
  \<open>beta = - sigma sigma_new\<close>.
\<close>

fun cheb_pair ::
  "UpperOrLower \<Rightarrow> 'a::{zero,one,plus,minus,uminus,times,inverse} DistMatrix \<Rightarrow> 'a \<Rightarrow> 'a \<Rightarrow>
   nat \<Rightarrow> 'a list \<times> 'a list \<Rightarrow> 'a list \<times> 'a list"
where
  "cheb_pair uplo A e sigma_scale 0 (v, w) = (v, w)"
| "cheb_pair uplo A e sigma_scale (Suc 0) (v, w) =
     (v, hemm_column uplo (sigma_scale / e) A v 0 w)"
| "cheb_pair uplo A e sigma_scale (Suc (Suc n)) (v, w) =
     (let (v', w') = cheb_pair uplo A e sigma_scale (Suc n) (v, w);
          sigma = cheb_sigma sigma_scale (Suc n);
          sigma_new = 1 / ((1 + 1) / sigma_scale - sigma);
          alpha = (1 + 1) * sigma_new / e;
          beta = - sigma * sigma_new
      in if even (Suc (Suc n))
         then (hemm_column uplo alpha A w' beta v', w')
         else (v', hemm_column uplo alpha A v' beta w'))"

text \<open>
  The filtered vector of degree \<open>d\<close>: what the recurrence leaves in the output column,
  copied from \<open>v\<close> when the last step (of even degree) wrote there. Degree 0 leaves the
  output column as it is.
\<close>

definition chebyshev_column ::
  "UpperOrLower \<Rightarrow> 'a::{zero,one,plus,minus,uminus,times,inverse} DistMatrix \<Rightarrow> 'a \<Rightarrow> 'a \<Rightarrow> 'a \<Rightarrow>
   nat \<Rightarrow> 'a list \<Rightarrow> 'a list \<Rightarrow> 'a list"
where
  "chebyshev_column uplo A lambda lower upper d v w =
     (let c = (upper + lower) / (1 + 1);
          e = (upper - lower) / (1 + 1);
          sigma_scale = e / (lambda - c);
          (v', w') = cheb_pair uplo (ShiftDiagonal A (- c)) e sigma_scale d (v, w)
      in if d \<noteq> 0 \<and> even d then take (Height A) v' @ drop (Height A) w' else w')"

subsection \<open>Valid calls\<close>

definition INT_MAX :: int where
  "INT_MAX = 2147483647"

text \<open>
  The degree schedule of a valid call (section 4.1, preconditions): \<^verbatim>\<open>degrees\<close> has
  length \<^verbatim>\<open>deglen\<close>, its values are positive and sorted ascending, and it is aligned with
  the first \<^verbatim>\<open>deglen\<close> columns of the active range. A schedule has at least one entry,
  since the routine reads its last one.
\<close>

definition valid_schedule :: "int list option \<Rightarrow> int \<Rightarrow> int \<Rightarrow> bool" where
  "valid_schedule degrees deglen width \<longleftrightarrow>
     (case degrees of
        None \<Rightarrow> True
      | Some ds \<Rightarrow>
          int (length ds) = deglen \<and> 1 \<le> deglen \<and> deglen \<le> width \<and> sorted ds \<and>
          list_all (\<lambda>d. 1 \<le> d) ds)"

text \<open>
  A valid call: well-formed matrices, a square operator, the active range
  \<open>[start, start + width)\<close> inside \<open>V\<close> and \<open>W\<close>, which have at least as many rows as \<open>A\<close>, a
  degree that is not negative, a valid schedule, \<open>lambda\<close> off the midpoint \<open>c\<close>, and no
  \<^verbatim>\<open>int\<close> of the run beyond \<open>INT_MAX\<close> (the loop counter reaches \<open>degmax + 1\<close>, the cost
  metric at most \<open>width * degmax\<close>).
\<close>

definition valid_call ::
  "'a::{one,plus,inverse} DistMatrix \<Rightarrow> 'a DistMatrix \<Rightarrow> 'a DistMatrix \<Rightarrow> int \<Rightarrow> int \<Rightarrow> int \<Rightarrow>
   int list option \<Rightarrow> int \<Rightarrow> 'a \<Rightarrow> 'a \<Rightarrow> 'a \<Rightarrow> bool"
where
  "valid_call A V W start width deg degrees deglen lambda lower upper \<longleftrightarrow>
     wf_matrix A \<and> wf_matrix V \<and> wf_matrix W \<and> Height A = Width A \<and>
     Height A \<le> Height V \<and> Height A \<le> Height W \<and>
     0 \<le> start \<and> 0 \<le> width \<and>
     start + width \<le> int (Width V) \<and> start + width \<le> int (Width W) \<and>
     0 \<le> deg \<and> valid_schedule degrees deglen width \<and>
     lambda \<noteq> (upper + lower) / (1 + 1) \<and>
     start + width \<le> INT_MAX \<and>
     (case degmax_of deg degrees deglen of
        None \<Rightarrow> False
      | Some degmax \<Rightarrow> degmax < INT_MAX \<and> width * degmax \<le> INT_MAX)"

text \<open>
  The degree that the code gives to the vector at position \<open>k\<close> of the active range: its
  entry of the schedule, and the maximum degree where there is no entry.
\<close>

definition column_degree :: "int \<Rightarrow> int list option \<Rightarrow> int \<Rightarrow> nat \<Rightarrow> int" where
  "column_degree deg degrees deglen k =
     (case degrees of
        None \<Rightarrow> deg
      | Some ds \<Rightarrow> if int k < deglen then ds ! k else max deg (ds ! nat (deglen - 1)))"

subsection \<open>The result of a call\<close>

definition outcome_of :: "outcome \<times> 'a DistMatrix \<times> 'a DistMatrix \<times> 'a DistMatrix \<Rightarrow> outcome" where
  "outcome_of r = fst r"
definition A_of :: "outcome \<times> 'a DistMatrix \<times> 'a DistMatrix \<times> 'a DistMatrix \<Rightarrow> 'a DistMatrix" where
  "A_of r = fst (snd r)"
definition V_of :: "outcome \<times> 'a DistMatrix \<times> 'a DistMatrix \<times> 'a DistMatrix \<Rightarrow> 'a DistMatrix" where
  "V_of r = fst (snd (snd r))"
definition W_of :: "outcome \<times> 'a DistMatrix \<times> 'a DistMatrix \<times> 'a DistMatrix \<Rightarrow> 'a DistMatrix" where
  "W_of r = snd (snd (snd r))"

text \<open>The matrix with the single column \<open>j\<close> of \<open>M\<close>.\<close>

definition column_matrix :: "'a DistMatrix \<Rightarrow> nat \<Rightarrow> 'a DistMatrix" where
  "column_matrix M j = \<lparr>Height = Height M, Width = 1, Columns = [Columns M ! j]\<rparr>"

subsection \<open>The invariant of the recurrence\<close>

text \<open>
  \<open>cheb_final\<close> is the output column of \<open>chebyshev_column\<close>, with the shifted operator and
  the scalars of the affine map given. \<open>sched_len\<close> and \<open>sched\<close> read the schedule, an absent
  one having no entry.
\<close>

definition cheb_final ::
  "UpperOrLower \<Rightarrow> 'a::{zero,one,plus,minus,uminus,times,inverse} DistMatrix \<Rightarrow> 'a \<Rightarrow> 'a \<Rightarrow>
   nat \<Rightarrow> 'a list \<times> 'a list \<Rightarrow> 'a list"
where
  "cheb_final uplo A e sigma_scale d p =
     (case cheb_pair uplo A e sigma_scale d p of
        (v', w') \<Rightarrow> if d \<noteq> 0 \<and> even d then take (Height A) v' @ drop (Height A) w' else w')"

definition sched_len :: "int list option \<Rightarrow> int \<Rightarrow> int" where
  "sched_len degrees deglen = (case degrees of None \<Rightarrow> 0 | Some ds \<Rightarrow> deglen)"

definition sched :: "int list option \<Rightarrow> nat \<Rightarrow> int" where
  "sched degrees k = (case degrees of None \<Rightarrow> 0 | Some ds \<Rightarrow> ds ! k)"

text \<open>
  The state of the loop when the degree \<open>m\<close> is done and the vectors of degree below
  \<open>thr\<close> have left the active range, for a call on \<open>V0\<close> and \<open>W0\<close> with the active range
  \<open>[s0, s0 + w0)\<close>: the \<open>st_j s\<close> deflated columns hold their filtered vector in \<open>W\<close>, the
  active ones hold the pair of buffers of degree \<open>m\<close>, every other column is as it was.
\<close>

definition filter_inv ::
  "UpperOrLower \<Rightarrow> 'a::{zero,one,plus,minus,uminus,times,inverse} DistMatrix \<Rightarrow> 'a \<Rightarrow> 'a \<Rightarrow>
   int list option \<Rightarrow> int \<Rightarrow> nat \<Rightarrow> nat \<Rightarrow> 'a DistMatrix \<Rightarrow> 'a DistMatrix \<Rightarrow>
   int \<Rightarrow> nat \<Rightarrow> 'a filter_state \<Rightarrow> bool"
where
  "filter_inv uplo A e ss degrees deglen s0 w0 V0 W0 thr m s \<longleftrightarrow>
     Height (st_V s) = Height V0 \<and> Width (st_V s) = Width V0 \<and>
     length (Columns (st_V s)) = length (Columns V0) \<and>
     Height (st_W s) = Height W0 \<and> Width (st_W s) = Width W0 \<and>
     length (Columns (st_W s)) = length (Columns W0) \<and>
     0 \<le> st_j s \<and> st_j s \<le> sched_len degrees deglen \<and>
     st_start s = int s0 + st_j s \<and> st_width s = int w0 - st_j s \<and>
     st_sigma s = cheb_sigma ss m \<and>
     (\<forall>k. int k < sched_len degrees deglen \<longrightarrow>
          (int k < st_j s \<longrightarrow> sched degrees k < thr) \<and>
          (st_j s \<le> int k \<longrightarrow> thr \<le> sched degrees k)) \<and>
     (\<forall>c. c < s0 \<or> s0 + w0 \<le> c \<longrightarrow>
          (c < length (Columns V0) \<longrightarrow> Columns (st_V s) ! c = Columns V0 ! c) \<and>
          (c < length (Columns W0) \<longrightarrow> Columns (st_W s) ! c = Columns W0 ! c)) \<and>
     (\<forall>k. k < w0 \<longrightarrow>
          (int k < st_j s \<longrightarrow>
             Columns (st_W s) ! (s0 + k) =
               cheb_final uplo A e ss (nat (sched degrees k))
                 (Columns V0 ! (s0 + k), Columns W0 ! (s0 + k))) \<and>
          (st_j s \<le> int k \<longrightarrow>
             (Columns (st_V s) ! (s0 + k), Columns (st_W s) ! (s0 + k)) =
               cheb_pair uplo A e ss m (Columns V0 ! (s0 + k), Columns W0 ! (s0 + k))))"

text \<open>What a valid call fixes for the whole run.\<close>

definition filter_ctx ::
  "'a DistMatrix \<Rightarrow> int list option \<Rightarrow> int \<Rightarrow> nat \<Rightarrow> nat \<Rightarrow> 'a DistMatrix \<Rightarrow> 'a DistMatrix \<Rightarrow> bool"
where
  "filter_ctx A degrees deglen s0 w0 V0 W0 \<longleftrightarrow>
     Height A = Width A \<and> Height A \<le> Height V0 \<and> Height A \<le> Height W0 \<and>
     length (Columns V0) = Width V0 \<and> length (Columns W0) = Width W0 \<and>
     s0 + w0 \<le> Width V0 \<and> s0 + w0 \<le> Width W0 \<and>
     sched_len degrees deglen \<le> int w0 \<and>
     (case degrees of None \<Rightarrow> True | Some ds \<Rightarrow> int (length ds) = deglen \<and> sorted ds)"

subsection \<open>Scalars with a NaN, and the data of the examples\<close>

text \<open>
  A scalar type with the special values of IEEE arithmetic, to run the scan on: a real
  number, \<open>+inf\<close>, \<open>-inf\<close> or \<open>NaN\<close>. \<open>NaN\<close> comes from \<open>0 / 0\<close>, \<open>inf - inf\<close>, \<open>0 * inf\<close> and
  \<open>inf / inf\<close>, and every operation propagates it; a number other than 0 divided by 0 is
  an infinity, which \<^verbatim>\<open>std::isnan\<close> does not flag. Rounding, overflow and the sign of zero
  are left out (every zero is \<open>+0\<close>).
\<close>

datatype nreal = Fin real | PInf | MInf | NaN

instantiation nreal :: "{zero,one,plus,minus,uminus,times,inverse,abs}"
begin

definition zero_nreal :: nreal where "zero_nreal = Fin 0"
definition one_nreal :: nreal where "one_nreal = Fin 1"

fun uminus_nreal :: "nreal \<Rightarrow> nreal" where
  "uminus_nreal (Fin a) = Fin (- a)"
| "uminus_nreal PInf = MInf"
| "uminus_nreal MInf = PInf"
| "uminus_nreal NaN = NaN"

fun plus_nreal :: "nreal \<Rightarrow> nreal \<Rightarrow> nreal" where
  "plus_nreal (Fin a) (Fin b) = Fin (a + b)"
| "plus_nreal NaN _ = NaN"
| "plus_nreal _ NaN = NaN"
| "plus_nreal PInf MInf = NaN"
| "plus_nreal MInf PInf = NaN"
| "plus_nreal PInf _ = PInf"
| "plus_nreal _ PInf = PInf"
| "plus_nreal MInf _ = MInf"
| "plus_nreal _ MInf = MInf"

definition minus_nreal :: "nreal \<Rightarrow> nreal \<Rightarrow> nreal" where
  "minus_nreal x y = x + (- y)"

fun times_nreal :: "nreal \<Rightarrow> nreal \<Rightarrow> nreal" where
  "times_nreal (Fin a) (Fin b) = Fin (a * b)"
| "times_nreal NaN _ = NaN"
| "times_nreal _ NaN = NaN"
| "times_nreal (Fin a) PInf = (if a = 0 then NaN else if 0 < a then PInf else MInf)"
| "times_nreal (Fin a) MInf = (if a = 0 then NaN else if 0 < a then MInf else PInf)"
| "times_nreal PInf (Fin b) = (if b = 0 then NaN else if 0 < b then PInf else MInf)"
| "times_nreal MInf (Fin b) = (if b = 0 then NaN else if 0 < b then MInf else PInf)"
| "times_nreal PInf PInf = PInf"
| "times_nreal MInf MInf = PInf"
| "times_nreal PInf MInf = MInf"
| "times_nreal MInf PInf = MInf"

fun divide_nreal :: "nreal \<Rightarrow> nreal \<Rightarrow> nreal" where
  "divide_nreal (Fin a) (Fin b) =
     (if b = 0 then (if a = 0 then NaN else if 0 < a then PInf else MInf) else Fin (a / b))"
| "divide_nreal NaN _ = NaN"
| "divide_nreal _ NaN = NaN"
| "divide_nreal (Fin a) _ = Fin 0"
| "divide_nreal PInf (Fin b) = (if 0 \<le> b then PInf else MInf)"
| "divide_nreal MInf (Fin b) = (if 0 \<le> b then MInf else PInf)"
| "divide_nreal _ _ = NaN"

fun inverse_nreal :: "nreal \<Rightarrow> nreal" where
  "inverse_nreal (Fin a) = (if a = 0 then PInf else Fin (inverse a))"
| "inverse_nreal PInf = Fin 0"
| "inverse_nreal MInf = Fin 0"
| "inverse_nreal NaN = NaN"

fun abs_nreal :: "nreal \<Rightarrow> nreal" where
  "abs_nreal (Fin a) = Fin \<bar>a\<bar>"
| "abs_nreal PInf = PInf"
| "abs_nreal MInf = PInf"
| "abs_nreal NaN = NaN"

instance ..

end

text \<open>\<^verbatim>\<open>std::isnan\<close> on these scalars: an infinity is not a NaN.\<close>

fun isnan_nreal :: "nreal \<Rightarrow> bool" where
  "isnan_nreal NaN = True"
| "isnan_nreal _ = False"

definition ex_A :: "real DistMatrix" where "ex_A = \<lparr>Height = 2, Width = 2, Columns = [[2,1],[1,3]]\<rparr>"
definition ex_V :: "real DistMatrix" where "ex_V = \<lparr>Height = 2, Width = 3, Columns = [[1,0],[0,1],[1,1]]\<rparr>"
definition ex_W :: "real DistMatrix" where "ex_W = \<lparr>Height = 2, Width = 3, Columns = [[7,7],[8,8],[9,9]]\<rparr>"

definition nan_A :: "nreal DistMatrix" where
  "nan_A = \<lparr>Height = 1, Width = 1, Columns = [[Fin 2]]\<rparr>"
definition nan_col :: "nreal DistMatrix" where
  "nan_col = \<lparr>Height = 1, Width = 1, Columns = [[NaN]]\<rparr>"
definition zero_col :: "nreal DistMatrix" where
  "zero_col = \<lparr>Height = 1, Width = 1, Columns = [[Fin 0]]\<rparr>"
definition one_col :: "nreal DistMatrix" where
  "one_col = \<lparr>Height = 1, Width = 1, Columns = [[Fin 1]]\<rparr>"

section \<open>Lemmas\<close>

subsection \<open>Saving and restoring the diagonal\<close>

lemma SetDiagonal_ShiftDiagonal: "SetDiagonal (ShiftDiagonal A a) (GetDiagonal A) = A"
proof -
  let ?R = "SetDiagonal (ShiftDiagonal A a) (GetDiagonal A)"
  have cols: "Columns ?R = Columns A"
    by (rule nth_equalityI)
       (auto simp: SetDiagonal_def ShiftDiagonal_def GetDiagonal_def Entry_def)
  have "?R = A\<lparr>Columns := Columns ?R\<rparr>"
    by (simp add: SetDiagonal_def ShiftDiagonal_def)
  with cols show ?thesis by simp
qed

subsection \<open>One step of the recurrence on one vector\<close>

lemma nat_two_le:
  assumes "2 \<le> (i::int)"
  shows "nat i = Suc (Suc (nat (i - 2)))" and "nat (i - 1) = Suc (nat (i - 2))"
  using assms by linarith+

lemma cheb_sigma_step:
  assumes "2 \<le> i"
  shows "cheb_sigma ss (nat i) = 1 / ((1 + 1) / ss - cheb_sigma ss (nat (i - 1)))"
  unfolding nat_two_le [OF assms] by simp

lemma even_nat_int: "0 \<le> i \<Longrightarrow> even (nat i) \<longleftrightarrow> i mod 2 = 0"
  by presburger

lemma cheb_pair_step:
  assumes "2 \<le> i" and "cheb_pair uplo A e ss (nat (i - 1)) p = (v, w)"
  shows "cheb_pair uplo A e ss (nat i) p =
           (if i mod 2 = 0
            then (hemm_column uplo
                    ((1 + 1) * (1 / ((1 + 1) / ss - cheb_sigma ss (nat (i - 1)))) / e) A w
                    (- cheb_sigma ss (nat (i - 1)) * (1 / ((1 + 1) / ss - cheb_sigma ss (nat (i - 1))))) v, w)
            else (v, hemm_column uplo
                    ((1 + 1) * (1 / ((1 + 1) / ss - cheb_sigma ss (nat (i - 1)))) / e) A v
                    (- cheb_sigma ss (nat (i - 1)) * (1 / ((1 + 1) / ss - cheb_sigma ss (nat (i - 1))))) w))"
proof -
  let ?n = "nat (i - 2)"
  have ev: "even (Suc (Suc ?n)) \<longleftrightarrow> i mod 2 = 0"
    using even_nat_int [of i] assms(1) nat_two_le(1) [OF assms(1)] by simp
  obtain v0 w0 where p: "p = (v0, w0)" by (cases p)
  have prev: "cheb_pair uplo A e ss (Suc ?n) (v0, w0) = (v, w)"
    using assms(2) unfolding p nat_two_le(2) [OF assms(1)] .
  have "cheb_pair uplo A e ss (Suc (Suc ?n)) (v0, w0) =
          (if even (Suc (Suc ?n))
            then (hemm_column uplo
                    ((1 + 1) * (1 / ((1 + 1) / ss - cheb_sigma ss (Suc ?n))) / e) A w
                    (- cheb_sigma ss (Suc ?n) * (1 / ((1 + 1) / ss - cheb_sigma ss (Suc ?n)))) v, w)
            else (v, hemm_column uplo
                    ((1 + 1) * (1 / ((1 + 1) / ss - cheb_sigma ss (Suc ?n))) / e) A v
                    (- cheb_sigma ss (Suc ?n) * (1 / ((1 + 1) / ss - cheb_sigma ss (Suc ?n)))) w))"
    unfolding cheb_pair.simps(3) prev Let_def prod.case ..
  then show ?thesis
    unfolding p ev nat_two_le [OF assms(1)] .
qed

subsection \<open>The scan of the schedule\<close>

lemma skip_degrees_props:
  assumes "sorted ds" and "0 \<le> j" and "j \<le> deglen" and "deglen = int (length ds)"
    and "\<forall>k. int k < deglen \<longrightarrow> j \<le> int k \<longrightarrow> i \<le> ds ! k"
  shows "j \<le> skip_degrees ds deglen i j \<and> skip_degrees ds deglen i j \<le> deglen \<and>
         (\<forall>k. j \<le> int k \<and> int k < skip_degrees ds deglen i j \<longrightarrow> ds ! k = i) \<and>
         (\<forall>k. skip_degrees ds deglen i j \<le> int k \<and> int k < deglen \<longrightarrow> i + 1 \<le> ds ! k)"
  using assms
proof (induction ds deglen i j rule: skip_degrees.induct)
  case (1 ds deglen i j)
  show ?case
  proof (cases "j < deglen \<and> ds ! nat j = i")
    case True
    let ?j' = "skip_degrees ds deglen i (j + 1)"
    have eq: "skip_degrees ds deglen i j = ?j'"
      using True by (subst skip_degrees.simps) simp
    have IH: "j + 1 \<le> ?j' \<and> ?j' \<le> deglen \<and>
         (\<forall>k. j + 1 \<le> int k \<and> int k < ?j' \<longrightarrow> ds ! k = i) \<and>
         (\<forall>k. ?j' \<le> int k \<and> int k < deglen \<longrightarrow> i + 1 \<le> ds ! k)"
      using "1.IH" [OF True] "1.prems" True by auto
    have "\<forall>k. j \<le> int k \<and> int k < ?j' \<longrightarrow> ds ! k = i"
    proof (intro allI impI)
      fix k assume k: "j \<le> int k \<and> int k < ?j'"
      show "ds ! k = i"
      proof (cases "int k = j")
        case True
        then have "nat j = k" by simp
        with \<open>j < deglen \<and> ds ! nat j = i\<close> show ?thesis by simp
      next
        case False
        with k have "j + 1 \<le> int k \<and> int k < ?j'" by simp
        with IH show ?thesis by blast
      qed
    qed
    with IH show ?thesis unfolding eq by simp
  next
    case False
    have eq: "skip_degrees ds deglen i j = j"
      by (subst skip_degrees.simps) (simp only: False if_False)
    have "\<forall>k. j \<le> int k \<and> int k < deglen \<longrightarrow> i + 1 \<le> ds ! k"
    proof (intro allI impI)
      fix k assume k: "j \<le> int k \<and> int k < deglen"
      then have jl: "j < deglen" by simp
      with False have ne: "ds ! nat j \<noteq> i" by simp
      have "int (nat j) < deglen" "j \<le> int (nat j)" using jl "1.prems"(2) by simp_all
      then have "i \<le> ds ! nat j" using "1.prems"(5) by blast
      with ne have lt: "i + 1 \<le> ds ! nat j" by simp
      have "nat j \<le> k" "k < length ds" using k "1.prems"(2,4) by linarith+
      then have "ds ! nat j \<le> ds ! k" using "1.prems"(1) by (simp add: sorted_nth_mono)
      with lt show "i + 1 \<le> ds ! k" by simp
    qed
    then show ?thesis unfolding eq using "1.prems" by simp
  qed
qed

lemma skip_degrees_ge: "j \<le> skip_degrees ds deglen i j"
proof (induction ds deglen i j rule: skip_degrees.induct)
  case (1 ds deglen i j)
  show ?case
  proof (cases "j < deglen \<and> ds ! nat j = i")
    case True
    have "skip_degrees ds deglen i j = skip_degrees ds deglen i (j + 1)"
      using True by (subst skip_degrees.simps) simp
    with "1.IH" [OF True] show ?thesis by simp
  next
    case False
    have "skip_degrees ds deglen i j = j"
      by (subst skip_degrees.simps) (simp only: False if_False)
    then show ?thesis by simp
  qed
qed

lemma View_Some:
  "AssertValidSubmatrix B 0 j h w \<Longrightarrow>
   View B j h w = Some \<lparr>vcol = nat j, vheight = nat h, vwidth = nat w\<rparr>"
  by (simp add: View_def)

lemma deflate_sum:
  "deflate degrees deglen N i s = Some s' \<Longrightarrow>
   st_start s' + st_width s' = st_start s + st_width s"
  by (auto simp: deflate_def Let_def split: option.splits if_splits)

lemma deflate_first_sum:
  "st_start (deflate_first degrees deglen s) + st_width (deflate_first degrees deglen s) =
   st_start s + st_width s"
  by (auto simp: deflate_first_def Let_def split: option.splits)

lemma filter_step_sum:
  "filter_step uplo A e ss degrees deglen i s = Some s' \<Longrightarrow>
   st_start s' + st_width s' = st_start s + st_width s"
  by (auto simp: filter_step_def Let_def split: option.splits if_splits dest!: deflate_sum)

subsection \<open>The invariant: columns, introduction and elimination\<close>

lemma CopyView_dims [simp]:
  "Height (CopyView B bv C cv) = Height C"
  "Width (CopyView B bv C cv) = Width C"
  "length (Columns (CopyView B bv C cv)) = length (Columns C)"
  by (simp_all add: CopyView_def)

lemma CopyView_nth:
  "c < length (Columns C) \<Longrightarrow>
   Columns (CopyView B bv C cv) ! c =
     (if vcol cv \<le> c \<and> c < vcol cv + vwidth cv
      then take (vheight cv) (Columns B ! (vcol bv + (c - vcol cv))) @
           drop (vheight cv) (Columns C ! c)
      else Columns C ! c)"
  by (simp add: CopyView_def)

lemma CopyView_nth_out:
  "c < length (Columns C) \<Longrightarrow> \<not> (vcol cv \<le> c \<and> c < vcol cv + vwidth cv) \<Longrightarrow>
   Columns (CopyView B bv C cv) ! c = Columns C ! c"
  by (auto simp: CopyView_nth)

lemma CopyView_nth_in:
  "c < length (Columns C) \<Longrightarrow> vcol cv \<le> c \<Longrightarrow> c < vcol cv + vwidth cv \<Longrightarrow>
   Columns (CopyView B bv C cv) ! c =
     take (vheight cv) (Columns B ! (vcol bv + (c - vcol cv))) @
     drop (vheight cv) (Columns C ! c)"
  by (simp add: CopyView_nth)

lemma filter_invD:
  assumes "filter_inv uplo A e ss degrees deglen s0 w0 V0 W0 thr m s"
  shows "Height (st_V s) = Height V0" and "Width (st_V s) = Width V0"
    and "length (Columns (st_V s)) = length (Columns V0)"
    and "Height (st_W s) = Height W0" and "Width (st_W s) = Width W0"
    and "length (Columns (st_W s)) = length (Columns W0)"
    and "0 \<le> st_j s" and "st_j s \<le> sched_len degrees deglen"
    and "st_start s = int s0 + st_j s" and "st_width s = int w0 - st_j s"
    and "st_sigma s = cheb_sigma ss m"
    and "\<And>k. int k < sched_len degrees deglen \<Longrightarrow> int k < st_j s \<Longrightarrow> sched degrees k < thr"
    and "\<And>k. int k < sched_len degrees deglen \<Longrightarrow> st_j s \<le> int k \<Longrightarrow> thr \<le> sched degrees k"
    and "\<And>c. c < s0 \<or> s0 + w0 \<le> c \<Longrightarrow> c < length (Columns V0) \<Longrightarrow>
            Columns (st_V s) ! c = Columns V0 ! c"
    and "\<And>c. c < s0 \<or> s0 + w0 \<le> c \<Longrightarrow> c < length (Columns W0) \<Longrightarrow>
            Columns (st_W s) ! c = Columns W0 ! c"
    and "\<And>k. k < w0 \<Longrightarrow> int k < st_j s \<Longrightarrow>
            Columns (st_W s) ! (s0 + k) =
              cheb_final uplo A e ss (nat (sched degrees k))
                (Columns V0 ! (s0 + k), Columns W0 ! (s0 + k))"
    and "\<And>k. k < w0 \<Longrightarrow> st_j s \<le> int k \<Longrightarrow>
            (Columns (st_V s) ! (s0 + k), Columns (st_W s) ! (s0 + k)) =
              cheb_pair uplo A e ss m (Columns V0 ! (s0 + k), Columns W0 ! (s0 + k))"
  using assms unfolding filter_inv_def
  by blast+

lemma filter_invI:
  assumes "Height (st_V s) = Height V0" and "Width (st_V s) = Width V0"
    and "length (Columns (st_V s)) = length (Columns V0)"
    and "Height (st_W s) = Height W0" and "Width (st_W s) = Width W0"
    and "length (Columns (st_W s)) = length (Columns W0)"
    and "0 \<le> st_j s" and "st_j s \<le> sched_len degrees deglen"
    and "st_start s = int s0 + st_j s" and "st_width s = int w0 - st_j s"
    and "st_sigma s = cheb_sigma ss m"
    and "\<And>k. int k < sched_len degrees deglen \<Longrightarrow> int k < st_j s \<Longrightarrow> sched degrees k < thr"
    and "\<And>k. int k < sched_len degrees deglen \<Longrightarrow> st_j s \<le> int k \<Longrightarrow> thr \<le> sched degrees k"
    and "\<And>c. c < s0 \<or> s0 + w0 \<le> c \<Longrightarrow> c < length (Columns V0) \<Longrightarrow>
            Columns (st_V s) ! c = Columns V0 ! c"
    and "\<And>c. c < s0 \<or> s0 + w0 \<le> c \<Longrightarrow> c < length (Columns W0) \<Longrightarrow>
            Columns (st_W s) ! c = Columns W0 ! c"
    and "\<And>k. k < w0 \<Longrightarrow> int k < st_j s \<Longrightarrow>
            Columns (st_W s) ! (s0 + k) =
              cheb_final uplo A e ss (nat (sched degrees k))
                (Columns V0 ! (s0 + k), Columns W0 ! (s0 + k))"
    and "\<And>k. k < w0 \<Longrightarrow> st_j s \<le> int k \<Longrightarrow>
            (Columns (st_V s) ! (s0 + k), Columns (st_W s) ! (s0 + k)) =
              cheb_pair uplo A e ss m (Columns V0 ! (s0 + k), Columns W0 ! (s0 + k))"
  shows "filter_inv uplo A e ss degrees deglen s0 w0 V0 W0 thr m s"
  unfolding filter_inv_def
  apply (intro conjI allI impI)
  using assms by (simp_all (no_asm_simp))

subsection \<open>Deflation keeps the invariant\<close>

lemma deflate_inv:
  assumes ctx: "filter_ctx A degrees deglen s0 w0 V0 W0"
    and inv: "filter_inv uplo A e ss degrees deglen s0 w0 V0 W0 i (nat i) s"
    and i1: "1 \<le> i"
  shows "\<exists>s'. deflate degrees deglen (int (Height A)) i s = Some s' \<and>
              filter_inv uplo A e ss degrees deglen s0 w0 V0 W0 (i + 1) (nat i) s' \<and>
              st_total s' = st_total s"
proof (cases degrees)
  case None
  note D = filter_invD [OF inv]
  have sl: "sched_len degrees deglen = 0" by (simp add: sched_len_def None)
  have "deflate degrees deglen (int (Height A)) i s = Some s"
    by (simp add: deflate_def None)
  moreover have "filter_inv uplo A e ss degrees deglen s0 w0 V0 W0 (i + 1) (nat i) s"
    by (rule filter_invI) (use D sl in simp_all)
  ultimately show ?thesis by simp
next
  case (Some ds)
  note D = filter_invD [OF inv]
  have len: "deglen = int (length ds)" and srt: "sorted ds"
    using ctx by (simp_all add: filter_ctx_def Some)
  have sl: "sched_len degrees deglen = deglen" by (simp add: sched_len_def Some)
  have sc: "sched degrees k = ds ! k" for k by (simp add: sched_def Some)
  have cw: "deglen \<le> int w0" using ctx sl by (simp add: filter_ctx_def)
  have hA: "Height A \<le> Height V0" "Height A \<le> Height W0"
    and lV: "length (Columns V0) = Width V0" and lW: "length (Columns W0) = Width W0"
    and rng: "s0 + w0 \<le> Width V0" "s0 + w0 \<le> Width W0"
    using ctx by (simp_all add: filter_ctx_def)
  define j' where "j' = skip_degrees ds deglen i (st_j s)"
  have "\<forall>k. int k < deglen \<longrightarrow> st_j s \<le> int k \<longrightarrow> i \<le> ds ! k"
    using D(13) sl sc by simp
  from skip_degrees_props [OF srt D(7) _ len this]
  have sk: "st_j s \<le> j'" "j' \<le> deglen"
    "\<And>k. st_j s \<le> int k \<Longrightarrow> int k < j' \<Longrightarrow> ds ! k = i"
    "\<And>k. j' \<le> int k \<Longrightarrow> int k < deglen \<Longrightarrow> i + 1 \<le> ds ! k"
    using D(8) sl unfolding j'_def by auto
  define l where "l = j' - st_j s"
  define s1 where "s1 = s\<lparr>st_j := j', st_width := st_width s - l\<rparr>"
  have l0: "0 \<le> l" using sk(1) by (simp add: l_def)
  show ?thesis
  proof (cases "i mod 2 = 0 \<and> l > 0")
    case True
    let ?vv = "\<lparr>vcol = nat (st_start s), vheight = Height A, vwidth = nat l\<rparr>"
    define s' where
      "s' = s1\<lparr>st_W := CopyView (st_V s) ?vv (st_W s) ?vv, st_start := st_start s + l\<rparr>"
    have av: "AssertValidSubmatrix (st_V s) 0 (st_start s) (int (Height A)) l"
      "AssertValidSubmatrix (st_W s) 0 (st_start s) (int (Height A)) l"
      using D(1,2,4,5,7,9) hA rng sk(2) cw l0
      by (simp_all add: AssertValidSubmatrix_def l_def)
    have jlt: "st_j s < j'" using True by (simp add: l_def)
    have defl: "deflate degrees deglen (int (Height A)) i s = Some s'"
      using True av jlt
      by (simp add: deflate_def Some Let_def j'_def [symmetric] l_def [symmetric]
            s1_def s'_def View_Some)
    have vc: "nat (st_start s) = s0 + nat (st_j s)"
      using D(7,9) by (simp add: nat_add_distrib)
    have inv': "filter_inv uplo A e ss degrees deglen s0 w0 V0 W0 (i + 1) (nat i) s'"
    proof (rule filter_invI)
      show "Height (st_V s') = Height V0" "Width (st_V s') = Width V0"
        "length (Columns (st_V s')) = length (Columns V0)"
        "Height (st_W s') = Height W0" "Width (st_W s') = Width W0"
        "length (Columns (st_W s')) = length (Columns W0)"
        using D(1-6) by (simp_all add: s'_def s1_def)
      show "0 \<le> st_j s'" "st_j s' \<le> sched_len degrees deglen"
        "st_start s' = int s0 + st_j s'" "st_width s' = int w0 - st_j s'"
        "st_sigma s' = cheb_sigma ss (nat i)"
        using D(7-11) sk(1,2) sl by (simp_all add: s'_def s1_def l_def)
      show "sched degrees k < i + 1"
        if "int k < sched_len degrees deglen" "int k < st_j s'" for k
      proof (cases "int k < st_j s")
        case True
        with D(12) [OF that(1)] show ?thesis by simp
      next
        case False
        with that(2) sk(3) [of k] show ?thesis by (simp add: s'_def s1_def sc)
      qed
      show "i + 1 \<le> sched degrees k"
        if "int k < sched_len degrees deglen" "st_j s' \<le> int k" for k
        using that sk(4) [of k] sl by (simp add: s'_def s1_def sc)
      show "Columns (st_V s') ! c = Columns V0 ! c"
        if "c < s0 \<or> s0 + w0 \<le> c" "c < length (Columns V0)" for c
        using D(14) [OF that] by (simp add: s'_def s1_def)
      show "Columns (st_W s') ! c = Columns W0 ! c"
        if "c < s0 \<or> s0 + w0 \<le> c" "c < length (Columns W0)" for c
      proof -
        have "\<not> (vcol ?vv \<le> c \<and> c < vcol ?vv + vwidth ?vv)"
          using that(1) sk(2) cw D(7) by (auto simp: l_def vc)
        moreover have "c < length (Columns (st_W s))" using that(2) D(6) by simp
        ultimately have "Columns (CopyView (st_V s) ?vv (st_W s) ?vv) ! c = Columns (st_W s) ! c"
          by (rule CopyView_nth_out [rotated])
        then show ?thesis
          using D(15) [OF that] by (simp add: s'_def s1_def)
      qed
      show "Columns (st_W s') ! (s0 + k) =
              cheb_final uplo A e ss (nat (sched degrees k))
                (Columns V0 ! (s0 + k), Columns W0 ! (s0 + k))"
        if "k < w0" "int k < st_j s'" for k
      proof (cases "int k < st_j s")
        case lt: True
        have "\<not> (vcol ?vv \<le> s0 + k \<and> s0 + k < vcol ?vv + vwidth ?vv)"
          using lt by (auto simp: vc)
        moreover have "s0 + k < length (Columns (st_W s))"
          using that(1) rng(2) D(6) lW by simp
        ultimately have "Columns (CopyView (st_V s) ?vv (st_W s) ?vv) ! (s0 + k) =
            Columns (st_W s) ! (s0 + k)"
          by (rule CopyView_nth_out [rotated])
        then show ?thesis
          using D(16) [OF that(1) lt] by (simp add: s'_def s1_def)
      next
        case ge: False
        then have ge': "st_j s \<le> int k" by simp
        have kj: "int k < j'" using that(2) by (simp add: s'_def s1_def)
        have rg: "s0 + nat (st_j s) \<le> s0 + k \<and> s0 + k < s0 + nat (st_j s) + nat l"
          using ge' kj D(7) by (auto simp: l_def)
        have lc: "s0 + k < length (Columns (st_W s))"
          using that(1) rng(2) D(6) lW by simp
        have idx: "s0 + nat (st_j s) + (k - nat (st_j s)) = s0 + k"
          using rg by simp
        have dk: "sched degrees k = i" using sk(3) [OF ge' kj] by (simp add: sc)
        obtain v' w' where vw: "cheb_pair uplo A e ss (nat i)
              (Columns V0 ! (s0 + k), Columns W0 ! (s0 + k)) = (v', w')"
          by (cases "cheb_pair uplo A e ss (nat i)
              (Columns V0 ! (s0 + k), Columns W0 ! (s0 + k))")
        from D(17) [OF that(1) ge'] vw
        have cur: "Columns (st_V s) ! (s0 + k) = v'" "Columns (st_W s) ! (s0 + k) = w'"
          by simp_all
        have ev: "nat i \<noteq> 0 \<and> even (nat i)"
          using True i1 even_nat_int [of i] by simp
        have "Columns (CopyView (st_V s) ?vv (st_W s) ?vv) ! (s0 + k) =
            take (vheight ?vv) (Columns (st_V s) ! (vcol ?vv + (s0 + k - vcol ?vv))) @
            drop (vheight ?vv) (Columns (st_W s) ! (s0 + k))"
          by (rule CopyView_nth_in) (use rg lc in \<open>simp_all add: vc\<close>)
        then have "Columns (st_W s') ! (s0 + k) = take (Height A) v' @ drop (Height A) w'"
          by (simp add: s'_def s1_def vc idx cur)
        also have "\<dots> = cheb_final uplo A e ss (nat (sched degrees k))
                (Columns V0 ! (s0 + k), Columns W0 ! (s0 + k))"
          unfolding dk cheb_final_def vw using ev by simp
        finally show ?thesis .
      qed
      show "(Columns (st_V s') ! (s0 + k), Columns (st_W s') ! (s0 + k)) =
              cheb_pair uplo A e ss (nat i) (Columns V0 ! (s0 + k), Columns W0 ! (s0 + k))"
        if "k < w0" "st_j s' \<le> int k" for k
      proof -
        have jk: "j' \<le> int k" using that(2) by (simp add: s'_def s1_def)
        then have ge': "st_j s \<le> int k" using sk(1) by simp
        have "\<not> (vcol ?vv \<le> s0 + k \<and> s0 + k < vcol ?vv + vwidth ?vv)"
          using jk D(7) sk(1) by (auto simp: l_def vc)
        moreover have "s0 + k < length (Columns (st_W s))"
          using that(1) rng(2) D(6) lW by simp
        ultimately have "Columns (CopyView (st_V s) ?vv (st_W s) ?vv) ! (s0 + k) =
            Columns (st_W s) ! (s0 + k)"
          by (rule CopyView_nth_out [rotated])
        then show ?thesis
          using D(17) [OF that(1) ge'] by (simp add: s'_def s1_def)
      qed
    qed
    have "st_total s' = st_total s" by (simp add: s'_def s1_def)
    with defl inv' show ?thesis by blast
  next
    case False
    define s' where "s' = s1\<lparr>st_start := st_start s + l\<rparr>"
    have defl: "deflate degrees deglen (int (Height A)) i s = Some s'"
      using False
      by (auto simp add: deflate_def Some Let_def j'_def [symmetric] l_def s1_def s'_def)
    have inv': "filter_inv uplo A e ss degrees deglen s0 w0 V0 W0 (i + 1) (nat i) s'"
    proof (rule filter_invI)
      show "Height (st_V s') = Height V0" "Width (st_V s') = Width V0"
        "length (Columns (st_V s')) = length (Columns V0)"
        "Height (st_W s') = Height W0" "Width (st_W s') = Width W0"
        "length (Columns (st_W s')) = length (Columns W0)"
        using D(1-6) by (simp_all add: s'_def s1_def)
      show "0 \<le> st_j s'" "st_j s' \<le> sched_len degrees deglen"
        "st_start s' = int s0 + st_j s'" "st_width s' = int w0 - st_j s'"
        "st_sigma s' = cheb_sigma ss (nat i)"
        using D(7-11) sk(1,2) sl by (simp_all add: s'_def s1_def l_def)
      show "sched degrees k < i + 1"
        if "int k < sched_len degrees deglen" "int k < st_j s'" for k
      proof (cases "int k < st_j s")
        case True
        with D(12) [OF that(1)] show ?thesis by simp
      next
        case False
        with that(2) sk(3) [of k] show ?thesis by (simp add: s'_def s1_def sc)
      qed
      show "i + 1 \<le> sched degrees k"
        if "int k < sched_len degrees deglen" "st_j s' \<le> int k" for k
        using that sk(4) [of k] sl by (simp add: s'_def s1_def sc)
      show "Columns (st_V s') ! c = Columns V0 ! c"
        if "c < s0 \<or> s0 + w0 \<le> c" "c < length (Columns V0)" for c
        using D(14) [OF that] by (simp add: s'_def s1_def)
      show "Columns (st_W s') ! c = Columns W0 ! c"
        if "c < s0 \<or> s0 + w0 \<le> c" "c < length (Columns W0)" for c
        using D(15) [OF that] by (simp add: s'_def s1_def)
      show "Columns (st_W s') ! (s0 + k) =
              cheb_final uplo A e ss (nat (sched degrees k))
                (Columns V0 ! (s0 + k), Columns W0 ! (s0 + k))"
        if "k < w0" "int k < st_j s'" for k
      proof (cases "int k < st_j s")
        case lt: True
        show ?thesis
          using D(16) [OF that(1) lt] by (simp add: s'_def s1_def)
      next
        case ge: False
        then have ge': "st_j s \<le> int k" by simp
        have kj: "int k < j'" using that(2) by (simp add: s'_def s1_def)
        then have "0 < l" using ge' by (simp add: l_def)
        with False have odd: "i mod 2 \<noteq> 0" by simp
        have dk: "sched degrees k = i" using sk(3) [OF ge' kj] by (simp add: sc)
        obtain v' w' where vw: "cheb_pair uplo A e ss (nat i)
              (Columns V0 ! (s0 + k), Columns W0 ! (s0 + k)) = (v', w')"
          by (cases "cheb_pair uplo A e ss (nat i)
              (Columns V0 ! (s0 + k), Columns W0 ! (s0 + k))")
        from D(17) [OF that(1) ge'] vw
        have cur: "Columns (st_W s) ! (s0 + k) = w'"
          by simp
        have ev: "\<not> even (nat i)"
          using odd i1 even_nat_int [of i] by simp
        have "Columns (st_W s') ! (s0 + k) = w'"
          by (simp add: s'_def s1_def cur)
        also have "\<dots> = cheb_final uplo A e ss (nat (sched degrees k))
                (Columns V0 ! (s0 + k), Columns W0 ! (s0 + k))"
          unfolding dk cheb_final_def vw using ev by simp
        finally show ?thesis .
      qed
      show "(Columns (st_V s') ! (s0 + k), Columns (st_W s') ! (s0 + k)) =
              cheb_pair uplo A e ss (nat i) (Columns V0 ! (s0 + k), Columns W0 ! (s0 + k))"
        if "k < w0" "st_j s' \<le> int k" for k
      proof -
        have jk: "j' \<le> int k" using that(2) by (simp add: s'_def s1_def)
        then have ge': "st_j s \<le> int k" using sk(1) by simp
        show ?thesis
          using D(17) [OF that(1) ge'] by (simp add: s'_def s1_def)
      qed
    qed
    have "st_total s' = st_total s" by (simp add: s'_def s1_def)
    with defl inv' show ?thesis by blast
  qed
qed

subsection \<open>The multiply keeps the invariant\<close>

lemma Hemm_Some:
  assumes "Height A = Width A" and "vheight bv = Height A" and "vheight cv = Height A"
    and "vwidth bv = vwidth cv"
  shows "\<exists>C'. Hemm uplo alpha A B bv beta C cv = Some C' \<and>
              Height C' = Height C \<and> Width C' = Width C \<and>
              length (Columns C') = length (Columns C) \<and>
              (\<forall>c. c < length (Columns C) \<longrightarrow>
                 (vcol cv \<le> c \<and> c < vcol cv + vwidth cv \<longrightarrow>
                    Columns C' ! c =
                      hemm_column uplo alpha A (Columns B ! (vcol bv + (c - vcol cv))) beta
                        (Columns C ! c)) \<and>
                 (\<not> (vcol cv \<le> c \<and> c < vcol cv + vwidth cv) \<longrightarrow>
                    Columns C' ! c = Columns C ! c))"
  using assms by (auto simp: Hemm_def)

lemma hemm_step_inv:
  assumes ctx: "filter_ctx A degrees deglen s0 w0 V0 W0"
    and inv: "filter_inv uplo A e ss degrees deglen s0 w0 V0 W0 i (nat (i - 1)) s"
    and i2: "2 \<le> i"
  shows "\<exists>s2. filter_step uplo A e ss degrees deglen i s =
                 deflate degrees deglen (int (Height A)) i s2 \<and>
              filter_inv uplo A e ss degrees deglen s0 w0 V0 W0 i (nat i) s2 \<and>
              st_total s2 = st_total s + st_width s"
proof -
  note D = filter_invD [OF inv]
  have sq: "Height A = Width A"
    and hA: "Height A \<le> Height V0" "Height A \<le> Height W0"
    and lV: "length (Columns V0) = Width V0" and lW: "length (Columns W0) = Width W0"
    and rng: "s0 + w0 \<le> Width V0" "s0 + w0 \<le> Width W0"
    and cw: "sched_len degrees deglen \<le> int w0"
    using ctx by (simp_all add: filter_ctx_def)
  define sigma_new where "sigma_new = 1 / ((1 + 1) / ss - cheb_sigma ss (nat (i - 1)))"
  define alpha where "alpha = (1 + 1) * sigma_new / e"
  define beta where "beta = - cheb_sigma ss (nat (i - 1)) * sigma_new"
  let ?vv = "\<lparr>vcol = nat (st_start s), vheight = Height A, vwidth = nat (st_width s)\<rparr>"
  have av: "AssertValidSubmatrix (st_V s) 0 (st_start s) (int (Height A)) (st_width s)"
    "AssertValidSubmatrix (st_W s) 0 (st_start s) (int (Height A)) (st_width s)"
    using D(1,2,4,5,7,8,9,10) hA rng cw
    by (simp_all add: AssertValidSubmatrix_def)
  have views: "View (st_V s) (st_start s) (int (Height A)) (st_width s) = Some ?vv"
    "View (st_W s) (st_start s) (int (Height A)) (st_width s) = Some ?vv"
    using av by (simp_all add: View_Some)
  have vc: "nat (st_start s) = s0 + nat (st_j s)" "nat (st_width s) = w0 - nat (st_j s)"
    "nat (st_j s) \<le> w0"
    using D(7,8,9,10) cw by (simp_all add: nat_add_distrib nat_diff_distrib)
  have sg: "cheb_sigma ss (nat i) = sigma_new"
    unfolding sigma_new_def by (rule cheb_sigma_step [OF i2])
  have pair: "cheb_pair uplo A e ss (nat i) p =
           (if i mod 2 = 0 then (hemm_column uplo alpha A w beta v, w)
            else (v, hemm_column uplo alpha A v beta w))"
    if "cheb_pair uplo A e ss (nat (i - 1)) p = (v, w)" for p v w
    unfolding alpha_def beta_def sigma_new_def by (rule cheb_pair_step [OF i2 that])
  show ?thesis
  proof (cases "i mod 2 = 0")
    case True
    from Hemm_Some [of A ?vv ?vv uplo alpha "st_W s" beta "st_V s"] sq
    obtain V' where V': "Hemm uplo alpha A (st_W s) ?vv beta (st_V s) ?vv = Some V'"
      "Height V' = Height (st_V s)" "Width V' = Width (st_V s)"
      "length (Columns V') = length (Columns (st_V s))"
      and cin: "\<And>c. c < length (Columns (st_V s)) \<Longrightarrow> vcol ?vv \<le> c \<Longrightarrow>
              c < vcol ?vv + vwidth ?vv \<Longrightarrow>
              Columns V' ! c =
                hemm_column uplo alpha A (Columns (st_W s) ! (vcol ?vv + (c - vcol ?vv))) beta
                  (Columns (st_V s) ! c)"
      and cout: "\<And>c. c < length (Columns (st_V s)) \<Longrightarrow>
              \<not> (vcol ?vv \<le> c \<and> c < vcol ?vv + vwidth ?vv) \<Longrightarrow>
              Columns V' ! c = Columns (st_V s) ! c"
      by auto
    define s2 where
      "s2 = s\<lparr>st_V := V', st_total := st_total s + st_width s, st_sigma := sigma_new\<rparr>"
    have step: "filter_step uplo A e ss degrees deglen i s =
                 deflate degrees deglen (int (Height A)) i s2"
      using True V'(1)
      by (simp add: filter_step_def Let_def views D(11) sigma_new_def [symmetric]
            alpha_def [symmetric] beta_def [symmetric] s2_def)
    have inv2: "filter_inv uplo A e ss degrees deglen s0 w0 V0 W0 i (nat i) s2"
    proof (rule filter_invI)
      show "Height (st_V s2) = Height V0" "Width (st_V s2) = Width V0"
        "length (Columns (st_V s2)) = length (Columns V0)"
        "Height (st_W s2) = Height W0" "Width (st_W s2) = Width W0"
        "length (Columns (st_W s2)) = length (Columns W0)"
        using D(1-6) V'(2-4) by (simp_all add: s2_def)
      show "0 \<le> st_j s2" "st_j s2 \<le> sched_len degrees deglen"
        "st_start s2 = int s0 + st_j s2" "st_width s2 = int w0 - st_j s2"
        "st_sigma s2 = cheb_sigma ss (nat i)"
        using D(7-10) sg by (simp_all add: s2_def)
      show "sched degrees k < i"
        if "int k < sched_len degrees deglen" "int k < st_j s2" for k
        using D(12) [OF that(1)] that(2) by (simp add: s2_def)
      show "i \<le> sched degrees k"
        if "int k < sched_len degrees deglen" "st_j s2 \<le> int k" for k
        using D(13) [OF that(1)] that(2) by (simp add: s2_def)
      show "Columns (st_V s2) ! c = Columns V0 ! c"
        if "c < s0 \<or> s0 + w0 \<le> c" "c < length (Columns V0)" for c
      proof -
        have "\<not> (vcol ?vv \<le> c \<and> c < vcol ?vv + vwidth ?vv)"
          using that(1) vc(3) by (auto simp: vc(1,2))
        moreover have "c < length (Columns (st_V s))" using that(2) D(3) by simp
        ultimately have "Columns V' ! c = Columns (st_V s) ! c" by (rule cout [rotated])
        then show ?thesis using D(14) [OF that] by (simp add: s2_def)
      qed
      show "Columns (st_W s2) ! c = Columns W0 ! c"
        if "c < s0 \<or> s0 + w0 \<le> c" "c < length (Columns W0)" for c
        using D(15) [OF that] by (simp add: s2_def)
      show "Columns (st_W s2) ! (s0 + k) =
              cheb_final uplo A e ss (nat (sched degrees k))
                (Columns V0 ! (s0 + k), Columns W0 ! (s0 + k))"
        if "k < w0" "int k < st_j s2" for k
        using D(16) [OF that(1)] that(2) by (simp add: s2_def)
      show "(Columns (st_V s2) ! (s0 + k), Columns (st_W s2) ! (s0 + k)) =
              cheb_pair uplo A e ss (nat i) (Columns V0 ! (s0 + k), Columns W0 ! (s0 + k))"
        if "k < w0" "st_j s2 \<le> int k" for k
      proof -
        have ge: "st_j s \<le> int k" using that(2) by (simp add: s2_def)
        obtain v w where vw: "cheb_pair uplo A e ss (nat (i - 1))
              (Columns V0 ! (s0 + k), Columns W0 ! (s0 + k)) = (v, w)"
          by (cases "cheb_pair uplo A e ss (nat (i - 1))
              (Columns V0 ! (s0 + k), Columns W0 ! (s0 + k))")
        from D(17) [OF that(1) ge] vw
        have cur: "Columns (st_V s) ! (s0 + k) = v" "Columns (st_W s) ! (s0 + k) = w"
          by simp_all
        have nk: "nat (st_j s) \<le> k" using ge D(7) by simp
        have lc: "s0 + k < length (Columns (st_V s))"
          using that(1) rng(1) D(3) lV by simp
        have "Columns V' ! (s0 + k) =
                hemm_column uplo alpha A
                  (Columns (st_W s) ! (vcol ?vv + (s0 + k - vcol ?vv))) beta
                  (Columns (st_V s) ! (s0 + k))"
          by (rule cin [OF lc]) (use nk that(1) vc(3) in \<open>simp_all add: vc(1,2)\<close>)
        moreover have "vcol ?vv + (s0 + k - vcol ?vv) = s0 + k"
          using nk by (simp add: vc(1))
        ultimately have "Columns V' ! (s0 + k) = hemm_column uplo alpha A w beta v"
          using cur by simp
        then show ?thesis
          using pair [OF vw] True cur(2) by (simp add: s2_def)
      qed
    qed
    have "st_total s2 = st_total s + st_width s" by (simp add: s2_def)
    with step inv2 show ?thesis by blast
  next
    case False
    from Hemm_Some [of A ?vv ?vv uplo alpha "st_V s" beta "st_W s"] sq
    obtain W' where W': "Hemm uplo alpha A (st_V s) ?vv beta (st_W s) ?vv = Some W'"
      "Height W' = Height (st_W s)" "Width W' = Width (st_W s)"
      "length (Columns W') = length (Columns (st_W s))"
      and cin: "\<And>c. c < length (Columns (st_W s)) \<Longrightarrow> vcol ?vv \<le> c \<Longrightarrow>
              c < vcol ?vv + vwidth ?vv \<Longrightarrow>
              Columns W' ! c =
                hemm_column uplo alpha A (Columns (st_V s) ! (vcol ?vv + (c - vcol ?vv))) beta
                  (Columns (st_W s) ! c)"
      and cout: "\<And>c. c < length (Columns (st_W s)) \<Longrightarrow>
              \<not> (vcol ?vv \<le> c \<and> c < vcol ?vv + vwidth ?vv) \<Longrightarrow>
              Columns W' ! c = Columns (st_W s) ! c"
      by auto
    define s2 where
      "s2 = s\<lparr>st_W := W', st_total := st_total s + st_width s, st_sigma := sigma_new\<rparr>"
    have step: "filter_step uplo A e ss degrees deglen i s =
                 deflate degrees deglen (int (Height A)) i s2"
      using False W'(1)
      by (simp add: filter_step_def Let_def views D(11) sigma_new_def [symmetric]
            alpha_def [symmetric] beta_def [symmetric] s2_def)
    have inv2: "filter_inv uplo A e ss degrees deglen s0 w0 V0 W0 i (nat i) s2"
    proof (rule filter_invI)
      show "Height (st_V s2) = Height V0" "Width (st_V s2) = Width V0"
        "length (Columns (st_V s2)) = length (Columns V0)"
        "Height (st_W s2) = Height W0" "Width (st_W s2) = Width W0"
        "length (Columns (st_W s2)) = length (Columns W0)"
        using D(1-6) W'(2-4) by (simp_all add: s2_def)
      show "0 \<le> st_j s2" "st_j s2 \<le> sched_len degrees deglen"
        "st_start s2 = int s0 + st_j s2" "st_width s2 = int w0 - st_j s2"
        "st_sigma s2 = cheb_sigma ss (nat i)"
        using D(7-10) sg by (simp_all add: s2_def)
      show "sched degrees k < i"
        if "int k < sched_len degrees deglen" "int k < st_j s2" for k
        using D(12) [OF that(1)] that(2) by (simp add: s2_def)
      show "i \<le> sched degrees k"
        if "int k < sched_len degrees deglen" "st_j s2 \<le> int k" for k
        using D(13) [OF that(1)] that(2) by (simp add: s2_def)
      show "Columns (st_W s2) ! c = Columns W0 ! c"
        if "c < s0 \<or> s0 + w0 \<le> c" "c < length (Columns W0)" for c
      proof -
        have "\<not> (vcol ?vv \<le> c \<and> c < vcol ?vv + vwidth ?vv)"
          using that(1) vc(3) by (auto simp: vc(1,2))
        moreover have "c < length (Columns (st_W s))" using that(2) D(6) by simp
        ultimately have "Columns W' ! c = Columns (st_W s) ! c" by (rule cout [rotated])
        then show ?thesis using D(15) [OF that] by (simp add: s2_def)
      qed
      show "Columns (st_V s2) ! c = Columns V0 ! c"
        if "c < s0 \<or> s0 + w0 \<le> c" "c < length (Columns V0)" for c
        using D(14) [OF that] by (simp add: s2_def)
      show "Columns (st_W s2) ! (s0 + k) =
              cheb_final uplo A e ss (nat (sched degrees k))
                (Columns V0 ! (s0 + k), Columns W0 ! (s0 + k))"
        if "k < w0" "int k < st_j s2" for k
      proof -
        have lt: "int k < st_j s" using that(2) by (simp add: s2_def)
        have "\<not> (vcol ?vv \<le> s0 + k \<and> s0 + k < vcol ?vv + vwidth ?vv)"
          using lt vc(3) by (auto simp: vc(1,2))
        moreover have "s0 + k < length (Columns (st_W s))"
          using that(1) rng(2) D(6) lW by simp
        ultimately have "Columns W' ! (s0 + k) = Columns (st_W s) ! (s0 + k)"
          by (rule cout [rotated])
        then show ?thesis using D(16) [OF that(1) lt] by (simp add: s2_def)
      qed
      show "(Columns (st_V s2) ! (s0 + k), Columns (st_W s2) ! (s0 + k)) =
              cheb_pair uplo A e ss (nat i) (Columns V0 ! (s0 + k), Columns W0 ! (s0 + k))"
        if "k < w0" "st_j s2 \<le> int k" for k
      proof -
        have ge: "st_j s \<le> int k" using that(2) by (simp add: s2_def)
        obtain v w where vw: "cheb_pair uplo A e ss (nat (i - 1))
              (Columns V0 ! (s0 + k), Columns W0 ! (s0 + k)) = (v, w)"
          by (cases "cheb_pair uplo A e ss (nat (i - 1))
              (Columns V0 ! (s0 + k), Columns W0 ! (s0 + k))")
        from D(17) [OF that(1) ge] vw
        have cur: "Columns (st_V s) ! (s0 + k) = v" "Columns (st_W s) ! (s0 + k) = w"
          by simp_all
        have nk: "nat (st_j s) \<le> k" using ge D(7) by simp
        have lc: "s0 + k < length (Columns (st_W s))"
          using that(1) rng(2) D(6) lW by simp
        have "Columns W' ! (s0 + k) =
                hemm_column uplo alpha A
                  (Columns (st_V s) ! (vcol ?vv + (s0 + k - vcol ?vv))) beta
                  (Columns (st_W s) ! (s0 + k))"
          by (rule cin [OF lc]) (use nk that(1) vc(3) in \<open>simp_all add: vc(1,2)\<close>)
        moreover have "vcol ?vv + (s0 + k - vcol ?vv) = s0 + k"
          using nk by (simp add: vc(1))
        ultimately have "Columns W' ! (s0 + k) = hemm_column uplo alpha A v beta w"
          using cur by simp
        then show ?thesis
          using pair [OF vw] False cur(1) by (simp add: s2_def)
      qed
    qed
    have "st_total s2 = st_total s + st_width s" by (simp add: s2_def)
    with step inv2 show ?thesis by blast
  qed
qed

subsection \<open>The loop\<close>

lemma filter_step_inv:
  assumes ctx: "filter_ctx A degrees deglen s0 w0 V0 W0"
    and inv: "filter_inv uplo A e ss degrees deglen s0 w0 V0 W0 i (nat (i - 1)) s"
    and i2: "2 \<le> i"
  shows "\<exists>s'. filter_step uplo A e ss degrees deglen i s = Some s' \<and>
              filter_inv uplo A e ss degrees deglen s0 w0 V0 W0 (i + 1) (nat i) s' \<and>
              st_total s' = st_total s + st_width s"
proof -
  from hemm_step_inv [OF ctx inv i2] obtain s2 where
    s2: "filter_step uplo A e ss degrees deglen i s =
           deflate degrees deglen (int (Height A)) i s2"
      "filter_inv uplo A e ss degrees deglen s0 w0 V0 W0 i (nat i) s2"
      "st_total s2 = st_total s + st_width s"
    by blast
  have "1 \<le> i" using i2 by simp
  from deflate_inv [OF ctx s2(2) this] s2(1,3) show ?thesis by auto
qed

lemma filter_loop_inv:
  assumes ctx: "filter_ctx A degrees deglen s0 w0 V0 W0"
    and inv: "filter_inv uplo A e ss degrees deglen s0 w0 V0 W0 i (nat (i - 1)) s"
    and i2: "2 \<le> i" and le: "i \<le> degmax + 1"
  shows "\<exists>s'. filter_loop uplo A e ss degrees deglen degmax i s = Some s' \<and>
              filter_inv uplo A e ss degrees deglen s0 w0 V0 W0 (degmax + 1) (nat degmax) s' \<and>
              (degrees = None \<longrightarrow> st_total s' = st_total s + int w0 * (degmax + 1 - i))"
  using inv i2 le
proof (induction "nat (degmax + 1 - i)" arbitrary: i s)
  case 0
  then have eq: "i = degmax + 1" by simp
  have "filter_loop uplo A e ss degrees deglen degmax i s = Some s"
    by (subst filter_loop.simps) (simp add: eq)
  with "0.prems"(1) show ?case by (simp add: eq)
next
  case (Suc n)
  then have le: "i \<le> degmax" by simp
  from filter_step_inv [OF ctx Suc.prems(1,2)] obtain s1 where
    s1: "filter_step uplo A e ss degrees deglen i s = Some s1"
      "filter_inv uplo A e ss degrees deglen s0 w0 V0 W0 (i + 1) (nat i) s1"
      "st_total s1 = st_total s + st_width s"
    by blast
  have loop: "filter_loop uplo A e ss degrees deglen degmax i s =
              filter_loop uplo A e ss degrees deglen degmax (i + 1) s1"
    by (subst filter_loop.simps) (simp add: le s1(1))
  have n: "n = nat (degmax + 1 - (i + 1))" using Suc.hyps(2) by simp
  have inv1: "filter_inv uplo A e ss degrees deglen s0 w0 V0 W0 (i + 1) (nat (i + 1 - 1)) s1"
    using s1(2) by simp
  from Suc.hyps(1) [OF n inv1] Suc.prems(2) le obtain s' where
    s': "filter_loop uplo A e ss degrees deglen degmax (i + 1) s1 = Some s'"
      "filter_inv uplo A e ss degrees deglen s0 w0 V0 W0 (degmax + 1) (nat degmax) s'"
      "degrees = None \<longrightarrow> st_total s' = st_total s1 + int w0 * (degmax + 1 - (i + 1))"
    by auto
  have "st_total s' = st_total s + int w0 * (degmax + 1 - i)" if "degrees = None"
  proof -
    have "sched_len degrees deglen = 0" using that by (simp add: sched_len_def)
    with filter_invD(7,8,10) [OF Suc.prems(1)] have "st_width s = int w0" by simp
    with s'(3) s1(3) that show ?thesis by (simp add: algebra_simps)
  qed
  with loop s'(1,2) show ?case by simp
qed

lemma deflate_first_deflate:
  "st_j s = 0 \<Longrightarrow> deflate degrees deglen N 1 s = Some (deflate_first degrees deglen s)"
  by (simp add: deflate_def deflate_first_def Let_def split: option.splits)

subsection \<open>The whole routine on a valid call\<close>

lemma ShiftDiagonal_dims [simp]:
  "Height (ShiftDiagonal A a) = Height A" "Width (ShiftDiagonal A a) = Width A"
  by (simp_all add: ShiftDiagonal_def)

lemma filter_cheb_run:
  assumes "degmax_of deg degrees deglen = Some degmax" and "degmax \<noteq> 0"
    and "AssertValidSubmatrix V 0 0 (int (Height A)) (start + width)"
    and "AssertValidSubmatrix W 0 0 (int (Height A)) (start + width)"
    and "0 \<le> start" and "0 \<le> width"
  shows "filter_cheb isnan uplo A V W start width deg degrees deglen lambda lower upper =
     (let c = (upper + lower) / (1 + 1);
          e = (upper - lower) / (1 + 1);
          sigma_scale = e / (lambda - c);
          A' = ShiftDiagonal A (- c);
          vv = \<lparr>vcol = nat start, vheight = Height A, vwidth = nat width\<rparr>
      in if search_nan isnan V W A' then (Exit 1, A', V, W)
         else
           (case Hemm uplo (sigma_scale / e) A' V vv 0 W vv of
              None \<Rightarrow> (Undefined, A', V, W)
            | Some W' \<Rightarrow>
                if search_nan isnan V W' A' then (Exit 1, A', V, W')
                else
                  (case filter_loop uplo A' e sigma_scale degrees deglen degmax 2
                          (deflate_first degrees deglen
                             \<lparr>st_V = V, st_W = W', st_start = start, st_width = width,
                              st_j = 0, st_sigma = sigma_scale, st_total = 0 + width\<rparr>) of
                     None \<Rightarrow> (Undefined, A', V, W')
                   | Some s \<Rightarrow>
                       if degmax mod 2 = 0
                       then (case (View (st_V s) (st_start s) (int (Height A)) (st_width s),
                                   View (st_W s) (st_start s) (int (Height A)) (st_width s)) of
                               (Some V_view, Some W_view) \<Rightarrow>
                                 (Returned (st_total s), A, st_V s,
                                  CopyView (st_V s) V_view (st_W s) W_view)
                             | _ \<Rightarrow> (Undefined, A', st_V s, st_W s))
                       else (Returned (st_total s), A, st_V s, st_W s))))"
proof -
  have v: "AssertValidSubmatrix V 0 start (int (Height A)) width"
    "AssertValidSubmatrix W 0 start (int (Height A)) width"
    using assms(3-6) by (simp_all add: AssertValidSubmatrix_def)
  show ?thesis
    unfolding filter_cheb_def Let_def
    by (simp add: assms(1-4) View_Some [OF v(1)] View_Some [OF v(2)]
          SetDiagonal_ShiftDiagonal cong: option.case_cong if_cong)
qed

lemma chebyshev_column_final:
  "chebyshev_column uplo A lambda lower upper d v w =
     cheb_final uplo (ShiftDiagonal A (- ((upper + lower) / (1 + 1))))
       ((upper - lower) / (1 + 1))
       ((upper - lower) / (1 + 1) / (lambda - (upper + lower) / (1 + 1))) d (v, w)"
  by (simp add: chebyshev_column_def cheb_final_def Let_def split: prod.splits)

lemma filter_cheb_valid:
  assumes valid: "valid_call A V W start width deg degrees deglen lambda lower upper"
    and nx: "fst (filter_cheb isnan uplo A V W start width deg degrees deglen lambda lower upper)
               \<noteq> Exit 1"
  shows "\<exists>cost V' W'.
      filter_cheb isnan uplo A V W start width deg degrees deglen lambda lower upper =
        (Returned cost, A, V', W') \<and>
      length (Columns V') = length (Columns V) \<and> length (Columns W') = length (Columns W) \<and>
      (\<forall>c. c < nat start \<or> nat start + nat width \<le> c \<longrightarrow>
           (c < length (Columns V) \<longrightarrow> Columns V' ! c = Columns V ! c) \<and>
           (c < length (Columns W) \<longrightarrow> Columns W' ! c = Columns W ! c)) \<and>
      (\<forall>k. k < nat width \<longrightarrow>
           Columns W' ! (nat start + k) =
             chebyshev_column uplo A lambda lower upper
               (nat (column_degree deg degrees deglen k))
               (Columns V ! (nat start + k)) (Columns W ! (nat start + k))) \<and>
      (degrees = None \<longrightarrow> cost = width * deg)"
proof -
  let ?F = "filter_cheb isnan uplo A V W start width deg degrees deglen lambda lower upper"
  define c where "c = (upper + lower) / (1 + 1)"
  define e where "e = (upper - lower) / (1 + 1)"
  define ss where "ss = e / (lambda - c)"
  define A' where "A' = ShiftDiagonal A (- c)"
  define s0 where "s0 = nat start"
  define w0 where "w0 = nat width"
  have st0: "0 \<le> start" "0 \<le> width" and deg0: "0 \<le> deg"
    and wfV: "length (Columns V) = Width V" and wfW: "length (Columns W) = Width W"
    and sq: "Height A = Width A" and hA: "Height A \<le> Height V" "Height A \<le> Height W"
    and rng: "start + width \<le> int (Width V)" "start + width \<le> int (Width W)"
    and vs: "valid_schedule degrees deglen width"
    using valid by (simp_all add: valid_call_def wf_matrix_def)
  obtain degmax where dm: "degmax_of deg degrees deglen = Some degmax"
    using valid by (auto simp: valid_call_def split: option.splits)
  have sw: "start = int s0" "width = int w0" using st0 by (simp_all add: s0_def w0_def)
  have cf: "chebyshev_column uplo A lambda lower upper d v w = cheb_final uplo A' e ss d (v, w)"
    for d v w
    unfolding chebyshev_column_final A'_def e_def ss_def c_def ..
  have sched_pos: "1 \<le> sched degrees k" if "int k < sched_len degrees deglen" for k
  proof (cases degrees)
    case None then show ?thesis using that by (simp add: sched_len_def)
  next
    case (Some ds)
    then have "k < length ds" "list_all (\<lambda>d. 1 \<le> d) ds"
      using that vs by (simp_all add: sched_len_def valid_schedule_def)
    then show ?thesis by (simp add: sched_def Some list_all_length)
  qed
  have sched_le: "sched degrees k \<le> degmax" if "int k < sched_len degrees deglen" for k
  proof (cases degrees)
    case None then show ?thesis using that by (simp add: sched_len_def)
  next
    case (Some ds)
    then have k: "k < length ds" and len: "int (length ds) = deglen" and srt: "sorted ds"
      and d1: "1 \<le> deglen"
      using that vs by (simp_all add: sched_len_def valid_schedule_def)
    have "nat (deglen - 1) < length ds" "k \<le> nat (deglen - 1)" using k len d1 by linarith+
    then have "ds ! k \<le> ds ! nat (deglen - 1)" using srt by (simp add: sorted_nth_mono)
    moreover have "ds ! nat (deglen - 1) \<le> degmax"
      using dm Some by (auto simp: degmax_of_def split: if_splits)
    ultimately show ?thesis by (simp add: sched_def Some)
  qed
  have cdeg1: "column_degree deg degrees deglen k = sched degrees k"
    if "int k < sched_len degrees deglen" for k
    using that by (cases degrees) (simp_all add: column_degree_def sched_len_def sched_def)
  have cdeg2: "column_degree deg degrees deglen k = degmax"
    if "sched_len degrees deglen \<le> int k" for k
    using that dm
    by (cases degrees) (auto simp: column_degree_def sched_len_def degmax_of_def split: if_splits)
  have dmdeg: "degrees = None \<Longrightarrow> degmax = deg" using dm by (simp add: degmax_of_def)
  have dm0: "0 \<le> degmax" using dm deg0
    by (cases degrees) (auto simp: degmax_of_def split: if_splits)
  show ?thesis
  proof (cases "degmax = 0")
    case True
    have none: "degrees = None"
    proof (cases degrees)
      case (Some ds)
      then have "int 0 < sched_len degrees deglen"
        using vs by (simp add: sched_len_def valid_schedule_def)
      from sched_pos [OF this] sched_le [OF this] True show ?thesis by simp
    qed simp
    with True dmdeg have d0: "deg = 0" by simp
    have F: "?F = (Returned 0, A, V, W)"
      by (simp add: filter_cheb_def degmax_of_def none d0)
    have "column_degree deg degrees deglen k = 0" for k
      by (simp add: column_degree_def none d0)
    then show ?thesis
      unfolding F by (simp add: chebyshev_column_def d0)
  next
    case False
    with dm0 have dm1: "1 \<le> degmax" by simp
    have av: "AssertValidSubmatrix V 0 0 (int (Height A)) (start + width)"
      "AssertValidSubmatrix W 0 0 (int (Height A)) (start + width)"
      using st0 hA rng by (simp_all add: AssertValidSubmatrix_def)
    note run = filter_cheb_run [OF dm False av st0, of isnan uplo lambda lower upper,
        unfolded Let_def, folded c_def, folded e_def, folded ss_def, folded A'_def]
    let ?vv = "\<lparr>vcol = nat start, vheight = Height A, vwidth = nat width\<rparr>"
    have hA': "Height A' = Height A" "Width A' = Width A" by (simp_all add: A'_def)
    have scan1: "\<not> search_nan isnan V W A'"
      using nx unfolding run by (auto split: if_splits)
    from Hemm_Some [of A' ?vv ?vv uplo "ss / e" V 0 W] sq hA'
    obtain W1 where W1: "Hemm uplo (ss / e) A' V ?vv 0 W ?vv = Some W1"
      "Height W1 = Height W" "Width W1 = Width W"
      "length (Columns W1) = length (Columns W)"
      and cin: "\<And>c. c < length (Columns W) \<Longrightarrow> vcol ?vv \<le> c \<Longrightarrow>
              c < vcol ?vv + vwidth ?vv \<Longrightarrow>
              Columns W1 ! c =
                hemm_column uplo (ss / e) A' (Columns V ! (vcol ?vv + (c - vcol ?vv))) 0
                  (Columns W ! c)"
      and cout: "\<And>c. c < length (Columns W) \<Longrightarrow>
              \<not> (vcol ?vv \<le> c \<and> c < vcol ?vv + vwidth ?vv) \<Longrightarrow>
              Columns W1 ! c = Columns W ! c"
      by auto
    have scan2: "\<not> search_nan isnan V W1 A'"
      using nx unfolding run by (auto simp: scan1 W1(1) split: if_splits)
    define s1 where "s1 = \<lparr>st_V = V, st_W = W1, st_start = start, st_width = width,
      st_j = 0, st_sigma = ss, st_total = 0 + width\<rparr>"
    have ctx: "filter_ctx A' degrees deglen s0 w0 V W"
      using sq hA wfV wfW rng vs st0
      by (auto simp: filter_ctx_def hA' s0_def w0_def sched_len_def valid_schedule_def
            split: option.splits)
    have inv1: "filter_inv uplo A' e ss degrees deglen s0 w0 V W 1 (nat 1) s1"
    proof (rule filter_invI)
      show "Height (st_V s1) = Height V" "Width (st_V s1) = Width V"
        "length (Columns (st_V s1)) = length (Columns V)"
        "Height (st_W s1) = Height W" "Width (st_W s1) = Width W"
        "length (Columns (st_W s1)) = length (Columns W)"
        using W1(2-4) by (simp_all add: s1_def)
      show "0 \<le> st_j s1" "st_start s1 = int s0 + st_j s1" "st_width s1 = int w0 - st_j s1"
        "st_sigma s1 = cheb_sigma ss (nat 1)"
        using sw by (simp_all add: s1_def)
      show "st_j s1 \<le> sched_len degrees deglen"
        using vs by (cases degrees) (simp_all add: s1_def sched_len_def valid_schedule_def)
      show "sched degrees k < 1"
        if "int k < sched_len degrees deglen" "int k < st_j s1" for k
        using that(2) by (simp add: s1_def)
      show "1 \<le> sched degrees k"
        if "int k < sched_len degrees deglen" "st_j s1 \<le> int k" for k
        using sched_pos [OF that(1)] .
      show "Columns (st_V s1) ! c = Columns V ! c"
        if "c < s0 \<or> s0 + w0 \<le> c" "c < length (Columns V)" for c
        by (simp add: s1_def)
      show "Columns (st_W s1) ! c = Columns W ! c"
        if "c < s0 \<or> s0 + w0 \<le> c" "c < length (Columns W)" for c
      proof -
        have "\<not> (vcol ?vv \<le> c \<and> c < vcol ?vv + vwidth ?vv)"
          using that(1) by (auto simp: s0_def w0_def)
        from cout [OF that(2) this] show ?thesis by (simp add: s1_def)
      qed
      show "Columns (st_W s1) ! (s0 + k) =
              cheb_final uplo A' e ss (nat (sched degrees k))
                (Columns V ! (s0 + k), Columns W ! (s0 + k))"
        if "k < w0" "int k < st_j s1" for k
        using that(2) by (simp add: s1_def)
      show "(Columns (st_V s1) ! (s0 + k), Columns (st_W s1) ! (s0 + k)) =
              cheb_pair uplo A' e ss (nat 1) (Columns V ! (s0 + k), Columns W ! (s0 + k))"
        if "k < w0" "st_j s1 \<le> int k" for k
      proof -
        have lc: "s0 + k < length (Columns W)"
          using that(1) rng(2) wfW sw by simp
        have "Columns W1 ! (s0 + k) =
                hemm_column uplo (ss / e) A' (Columns V ! (vcol ?vv + (s0 + k - vcol ?vv))) 0
                  (Columns W ! (s0 + k))"
          by (rule cin [OF lc]) (use that(1) in \<open>simp_all add: s0_def w0_def\<close>)
        then show ?thesis by (simp add: s1_def s0_def)
      qed
    qed
    have j0: "st_j s1 = 0" by (simp add: s1_def)
    from deflate_inv [OF ctx inv1] deflate_first_deflate [OF j0, of degrees deglen]
    have inv2: "filter_inv uplo A' e ss degrees deglen s0 w0 V W 2 (nat (2 - 1))
                  (deflate_first degrees deglen s1)"
      and tot2: "st_total (deflate_first degrees deglen s1) = width"
      by (auto simp: s1_def)
    have "2 \<le> degmax + 1" using dm1 by simp
    from filter_loop_inv [OF ctx inv2 _ this] obtain s' where
      s': "filter_loop uplo A' e ss degrees deglen degmax 2 (deflate_first degrees deglen s1)
             = Some s'"
        "filter_inv uplo A' e ss degrees deglen s0 w0 V W (degmax + 1) (nat degmax) s'"
        "degrees = None \<longrightarrow> st_total s' = width + int w0 * (degmax + 1 - 2)"
      using tot2 by auto
    note D = filter_invD [OF s'(2)]
    have jdone: "st_j s' = sched_len degrees deglen"
    proof (rule ccontr)
      assume "st_j s' \<noteq> sched_len degrees deglen"
      with D(7,8) have lt: "int (nat (st_j s')) < sched_len degrees deglen"
        and le: "st_j s' \<le> int (nat (st_j s'))" by simp_all
      from D(13) [OF lt le] sched_le [OF lt] show False by simp
    qed
    have cost: "degrees = None \<longrightarrow> st_total s' = width * deg"
      using s'(3) dmdeg sw by (auto simp: algebra_simps)
    have colV: "Columns (st_V s') ! c = Columns V ! c"
      if "c < nat start \<or> nat start + nat width \<le> c" "c < length (Columns V)" for c
      using D(14) [of c] that by (simp add: s0_def w0_def)
    have colW: "Columns (st_W s') ! c = Columns W ! c"
      if "c < nat start \<or> nat start + nat width \<le> c" "c < length (Columns W)" for c
      using D(15) [of c] that by (simp add: s0_def w0_def)
    have slw: "sched_len degrees deglen \<le> int w0" using ctx by (simp add: filter_ctx_def)
    show ?thesis
    proof (cases "degmax mod 2 = 0")
      case odd: False
      have F: "?F = (Returned (st_total s'), A, st_V s', st_W s')"
        unfolding run using scan1 scan2 W1(1) s'(1) odd by (simp add: s1_def)
      have res: "Columns (st_W s') ! (nat start + k) =
             chebyshev_column uplo A lambda lower upper
               (nat (column_degree deg degrees deglen k))
               (Columns V ! (nat start + k)) (Columns W ! (nat start + k))"
        if "k < nat width" for k
      proof (cases "int k < st_j s'")
        case True
        with D(16) [of k] that cdeg1 [of k] jdone show ?thesis
          by (simp add: cf s0_def w0_def)
      next
        case False
        then have ge: "st_j s' \<le> int k" by simp
        have nev: "\<not> even (nat degmax)" using odd dm0 even_nat_int [of degmax] by simp
        from D(17) [of k] that ge cdeg2 [of k] jdone nev show ?thesis
          by (auto simp add: cf s0_def w0_def cheb_final_def split: prod.splits)
      qed
      show ?thesis
        unfolding F using D(3,6) colV colW res cost by simp
    next
      case even: True
      let ?v2 = "\<lparr>vcol = nat (st_start s'), vheight = Height A, vwidth = nat (st_width s')\<rparr>"
      have av2: "AssertValidSubmatrix (st_V s') 0 (st_start s') (int (Height A)) (st_width s')"
        "AssertValidSubmatrix (st_W s') 0 (st_start s') (int (Height A)) (st_width s')"
        using D(1,2,4,5,7,8,9,10) hA rng slw sw
        by (simp_all add: AssertValidSubmatrix_def)
      have F: "?F = (Returned (st_total s'), A, st_V s',
                     CopyView (st_V s') ?v2 (st_W s') ?v2)"
        unfolding run using scan1 scan2 W1(1) s'(1) even
        by (simp add: s1_def View_Some [OF av2(1)] View_Some [OF av2(2)])
      have vc: "nat (st_start s') = s0 + nat (st_j s')"
        "nat (st_width s') = w0 - nat (st_j s')" "nat (st_j s') \<le> w0"
        using D(7,8,9,10) slw by (simp_all add: nat_add_distrib nat_diff_distrib)
      have colW': "Columns (CopyView (st_V s') ?v2 (st_W s') ?v2) ! c = Columns W ! c"
        if "c < nat start \<or> nat start + nat width \<le> c" "c < length (Columns W)" for c
      proof -
        have "\<not> (vcol ?v2 \<le> c \<and> c < vcol ?v2 + vwidth ?v2)"
          using that(1) vc(3) by (auto simp: vc(1,2) s0_def w0_def)
        moreover have "c < length (Columns (st_W s'))" using that(2) D(6) by simp
        ultimately have "Columns (CopyView (st_V s') ?v2 (st_W s') ?v2) ! c =
            Columns (st_W s') ! c"
          by (rule CopyView_nth_out [rotated])
        with colW [OF that] show ?thesis by simp
      qed
      have res: "Columns (CopyView (st_V s') ?v2 (st_W s') ?v2) ! (nat start + k) =
             chebyshev_column uplo A lambda lower upper
               (nat (column_degree deg degrees deglen k))
               (Columns V ! (nat start + k)) (Columns W ! (nat start + k))"
        if "k < nat width" for k
      proof (cases "int k < st_j s'")
        case True
        have kw: "k < w0" using that by (simp add: w0_def)
        have lc: "s0 + k < length (Columns (st_W s'))"
          using kw rng(2) wfW sw D(6) by simp
        have "\<not> (vcol ?v2 \<le> s0 + k \<and> s0 + k < vcol ?v2 + vwidth ?v2)"
          using True by (auto simp: vc(1,2))
        with lc have "Columns (CopyView (st_V s') ?v2 (st_W s') ?v2) ! (s0 + k) =
            Columns (st_W s') ! (s0 + k)"
          by (rule CopyView_nth_out)
        with D(16) [of k] that cdeg1 [of k] jdone True show ?thesis
          by (simp add: cf s0_def w0_def)
      next
        case False
        then have ge: "st_j s' \<le> int k" by simp
        then have nk: "nat (st_j s') \<le> k" by simp
        have kw: "k < w0" using that by (simp add: w0_def)
        have lc: "s0 + k < length (Columns (st_W s'))"
          using kw rng(2) wfW sw D(6) by simp
        have ev: "even (nat degmax)" "nat degmax \<noteq> 0"
          using even dm1 even_nat_int [of degmax] by simp_all
        obtain v' w' where vw: "cheb_pair uplo A' e ss (nat degmax)
              (Columns V ! (s0 + k), Columns W ! (s0 + k)) = (v', w')"
          by (cases "cheb_pair uplo A' e ss (nat degmax)
              (Columns V ! (s0 + k), Columns W ! (s0 + k))")
        from D(17) [of k] that ge vw
        have cur: "Columns (st_V s') ! (s0 + k) = v'" "Columns (st_W s') ! (s0 + k) = w'"
          by (simp_all add: w0_def)
        have "Columns (CopyView (st_V s') ?v2 (st_W s') ?v2) ! (s0 + k) =
            take (vheight ?v2) (Columns (st_V s') ! (vcol ?v2 + (s0 + k - vcol ?v2))) @
            drop (vheight ?v2) (Columns (st_W s') ! (s0 + k))"
          by (rule CopyView_nth_in [OF lc])
             (use nk that vc(3) in \<open>simp_all add: vc(1,2) w0_def\<close>)
        moreover have "vcol ?v2 + (s0 + k - vcol ?v2) = s0 + k"
          using nk by (simp add: vc(1))
        ultimately have "Columns (CopyView (st_V s') ?v2 (st_W s') ?v2) ! (s0 + k) =
            take (Height A) v' @ drop (Height A) w'"
          using cur by simp
        also have "\<dots> = cheb_final uplo A' e ss (nat degmax)
            (Columns V ! (s0 + k), Columns W ! (s0 + k))"
          unfolding cheb_final_def vw using ev by (simp add: hA')
        finally show ?thesis
          using cdeg2 [of k] ge jdone by (simp add: cf s0_def)
      qed
      show ?thesis
        unfolding F using D(3,6) colV colW' res cost by simp
    qed
  qed
qed

lemma filter_cheb_valid_proj:
  assumes valid: "valid_call A V W start width deg degrees deglen lambda lower upper"
    and nx: "outcome_of (filter_cheb isnan uplo A V W start width deg degrees deglen lambda lower upper)
               \<noteq> Exit 1"
  shows "\<exists>cost. outcome_of (filter_cheb isnan uplo A V W start width deg degrees deglen lambda lower upper) = Returned cost \<and> (degrees = None \<longrightarrow> cost = width * deg)"
    and "A_of (filter_cheb isnan uplo A V W start width deg degrees deglen lambda lower upper) = A"
    and "k < nat width \<Longrightarrow>
        Columns (W_of (filter_cheb isnan uplo A V W start width deg degrees deglen lambda lower upper)) ! (nat start + k) =
             chebyshev_column uplo A lambda lower upper
               (nat (column_degree deg degrees deglen k))
               (Columns V ! (nat start + k)) (Columns W ! (nat start + k))"
    and "c < nat start \<or> nat start + nat width \<le> c \<Longrightarrow> c < length (Columns V) \<Longrightarrow>
        Columns (V_of (filter_cheb isnan uplo A V W start width deg degrees deglen lambda lower upper)) ! c = Columns V ! c"
    and "c < nat start \<or> nat start + nat width \<le> c \<Longrightarrow> c < length (Columns W) \<Longrightarrow>
        Columns (W_of (filter_cheb isnan uplo A V W start width deg degrees deglen lambda lower upper)) ! c = Columns W ! c"
proof -
  from nx have "fst (filter_cheb isnan uplo A V W start width deg degrees deglen lambda lower upper) \<noteq> Exit 1"
    by (simp add: outcome_of_def)
  from filter_cheb_valid [OF valid this] obtain cost V' W' where
    F: "filter_cheb isnan uplo A V W start width deg degrees deglen lambda lower upper =
        (Returned cost, A, V', W')"
    and fr: "\<And>c. c < nat start \<or> nat start + nat width \<le> c \<Longrightarrow>
           (c < length (Columns V) \<longrightarrow> Columns V' ! c = Columns V ! c) \<and>
           (c < length (Columns W) \<longrightarrow> Columns W' ! c = Columns W ! c)"
    and col: "\<And>k. k < nat width \<Longrightarrow>
           Columns W' ! (nat start + k) =
             chebyshev_column uplo A lambda lower upper
               (nat (column_degree deg degrees deglen k))
               (Columns V ! (nat start + k)) (Columns W ! (nat start + k))"
    and cost: "degrees = None \<longrightarrow> cost = width * deg"
    by blast
  show "\<exists>cost. outcome_of (filter_cheb isnan uplo A V W start width deg degrees deglen lambda lower upper) = Returned cost \<and> (degrees = None \<longrightarrow> cost = width * deg)"
    using cost by (simp add: F outcome_of_def)
  show "A_of (filter_cheb isnan uplo A V W start width deg degrees deglen lambda lower upper) = A"
    by (simp add: F A_of_def)
  show "Columns (W_of (filter_cheb isnan uplo A V W start width deg degrees deglen lambda lower upper)) ! (nat start + k) =
             chebyshev_column uplo A lambda lower upper
               (nat (column_degree deg degrees deglen k))
               (Columns V ! (nat start + k)) (Columns W ! (nat start + k))" if "k < nat width"
    using col [OF that] by (simp add: F W_of_def)
  show "Columns (V_of (filter_cheb isnan uplo A V W start width deg degrees deglen lambda lower upper)) ! c = Columns V ! c"
    if "c < nat start \<or> nat start + nat width \<le> c" "c < length (Columns V)"
    using fr [OF that(1)] that(2) by (simp add: F V_of_def)
  show "Columns (W_of (filter_cheb isnan uplo A V W start width deg degrees deglen lambda lower upper)) ! c = Columns W ! c"
    if "c < nat start \<or> nat start + nat width \<le> c" "c < length (Columns W)"
    using fr [OF that(1)] that(2) by (simp add: F W_of_def)
qed

lemma filter_cheb_frame:
  assumes valid: "valid_call A V W start width deg degrees deglen lambda lower upper"
    and out: "c < nat start \<or> nat start + nat width \<le> c"
  shows "c < length (Columns V) \<Longrightarrow>
           Columns (V_of (filter_cheb isnan uplo A V W start width deg degrees deglen
             lambda lower upper)) ! c = Columns V ! c"
    and "c < length (Columns W) \<Longrightarrow>
           Columns (W_of (filter_cheb isnan uplo A V W start width deg degrees deglen
             lambda lower upper)) ! c = Columns W ! c"
proof -
  let ?F = "filter_cheb isnan uplo A V W start width deg degrees deglen lambda lower upper"
  have "(c < length (Columns V) \<longrightarrow> Columns (V_of ?F) ! c = Columns V ! c) \<and>
        (c < length (Columns W) \<longrightarrow> Columns (W_of ?F) ! c = Columns W ! c)"
  proof (cases "outcome_of ?F = Exit 1")
    case False
    from filter_cheb_valid_proj(4,5) [OF valid False out] show ?thesis by simp
  next
    case True
    have st0: "0 \<le> start" "0 \<le> width"
      and sq: "Height A = Width A" and hA: "Height A \<le> Height V" "Height A \<le> Height W"
      and rng: "start + width \<le> int (Width V)" "start + width \<le> int (Width W)"
      using valid by (simp_all add: valid_call_def)
    obtain degmax where dm: "degmax_of deg degrees deglen = Some degmax"
      using valid by (auto simp: valid_call_def split: option.splits)
    have nz: "degmax \<noteq> 0"
      using True dm by (auto simp: filter_cheb_def outcome_of_def)
    have av: "AssertValidSubmatrix V 0 0 (int (Height A)) (start + width)"
      "AssertValidSubmatrix W 0 0 (int (Height A)) (start + width)"
      using st0 hA rng by (simp_all add: AssertValidSubmatrix_def)
    define A' where "A' = ShiftDiagonal A (- ((upper + lower) / (1 + 1)))"
    define e where "e = (upper - lower) / (1 + 1)"
    define ss where "ss = e / (lambda - (upper + lower) / (1 + 1))"
    note run = filter_cheb_run [OF dm nz av st0, of isnan uplo lambda lower upper,
        unfolded Let_def, folded A'_def, folded e_def, folded ss_def]
    let ?vv = "\<lparr>vcol = nat start, vheight = Height A, vwidth = nat width\<rparr>"
    have hA': "Height A' = Width A'" "Height A' = Height A" using sq by (simp_all add: A'_def)
    from Hemm_Some [of A' ?vv ?vv uplo "ss / e" V 0 W] hA'
    obtain W1 where W1: "Hemm uplo (ss / e) A' V ?vv 0 W ?vv = Some W1"
      and cout: "\<And>c. c < length (Columns W) \<Longrightarrow>
              \<not> (vcol ?vv \<le> c \<and> c < vcol ?vv + vwidth ?vv) \<Longrightarrow>
              Columns W1 ! c = Columns W ! c"
      by auto
    have nin: "\<not> (vcol ?vv \<le> c \<and> c < vcol ?vv + vwidth ?vv)" using out by auto
    show ?thesis
    proof (cases "search_nan isnan V W A'")
      case True
      then have "?F = (Exit 1, A', V, W)" unfolding run by simp
      then show ?thesis by (simp add: V_of_def W_of_def)
    next
      case s1: False
      show ?thesis
      proof (cases "search_nan isnan V W1 A'")
        case True
        then have "?F = (Exit 1, A', V, W1)" unfolding run using s1 W1 by simp
        then show ?thesis using cout nin by (simp add: V_of_def W_of_def)
      next
        case False
        then have "outcome_of ?F \<noteq> Exit 1"
          unfolding run using s1 W1
          by (auto simp: outcome_of_def split: option.splits if_splits)
        with True show ?thesis by simp
      qed
    qed
  qed
  then show "c < length (Columns V) \<Longrightarrow> Columns (V_of ?F) ! c = Columns V ! c"
    and "c < length (Columns W) \<Longrightarrow> Columns (W_of ?F) ! c = Columns W ! c"
    by simp_all
qed

lemma deflate_start_mono:
  "deflate degrees deglen N i s = Some s' \<Longrightarrow> st_start s \<le> st_start s'"
  using skip_degrees_ge [of "st_j s"]
  by (auto simp: deflate_def Let_def split: option.splits if_splits)

lemma filter_step_start_mono:
  "filter_step uplo A e ss degrees deglen i s = Some s' \<Longrightarrow> st_start s \<le> st_start s'"
  by (auto simp: filter_step_def Let_def split: option.splits if_splits
        dest!: deflate_start_mono)

subsection \<open>Evaluation on concrete inputs\<close>

lemma cheb_sigma_Suc:
  "0 < n \<Longrightarrow> cheb_sigma ss (Suc n) = 1 / ((1 + 1) / ss - cheb_sigma ss n)"
  by (cases n) simp_all

lemma cheb_pair_Suc:
  "0 < n \<Longrightarrow> cheb_pair uplo A e ss (Suc n) (v, w) =
     (case cheb_pair uplo A e ss n (v, w) of
        (v', w') \<Rightarrow>
          if odd n
          then (hemm_column uplo ((1 + 1) * (1 / ((1 + 1) / ss - cheb_sigma ss n)) / e) A w'
                  (- cheb_sigma ss n * (1 / ((1 + 1) / ss - cheb_sigma ss n))) v', w')
          else (v', hemm_column uplo ((1 + 1) * (1 / ((1 + 1) / ss - cheb_sigma ss n)) / e) A v'
                  (- cheb_sigma ss n * (1 / ((1 + 1) / ss - cheb_sigma ss n))) w'))"
  by (cases n) (simp_all add: Let_def split: prod.splits)

lemma cheb_sigma_numeral:
  assumes "0 < pred_numeral k"
  shows "cheb_sigma ss (numeral k) =
           1 / ((1 + 1) / ss - cheb_sigma ss (pred_numeral k))"
proof -
  have "cheb_sigma ss (numeral k) = cheb_sigma ss (Suc (pred_numeral k))"
    by (simp only: numeral_eq_Suc)
  also have "\<dots> = 1 / ((1 + 1) / ss - cheb_sigma ss (pred_numeral k))"
    by (rule cheb_sigma_Suc [OF assms])
  finally show ?thesis .
qed

lemma cheb_pair_numeral:
  assumes "0 < pred_numeral k"
  shows "cheb_pair uplo A e ss (numeral k) (v, w) =
     (case cheb_pair uplo A e ss (pred_numeral k) (v, w) of
        (v', w') \<Rightarrow>
          if odd (pred_numeral k)
          then (hemm_column uplo
                  ((1 + 1) * (1 / ((1 + 1) / ss - cheb_sigma ss (pred_numeral k))) / e) A w'
                  (- cheb_sigma ss (pred_numeral k) *
                     (1 / ((1 + 1) / ss - cheb_sigma ss (pred_numeral k)))) v', w')
          else (v', hemm_column uplo
                  ((1 + 1) * (1 / ((1 + 1) / ss - cheb_sigma ss (pred_numeral k))) / e) A v'
                  (- cheb_sigma ss (pred_numeral k) *
                     (1 / ((1 + 1) / ss - cheb_sigma ss (pred_numeral k)))) w'))"
proof -
  have "cheb_pair uplo A e ss (numeral k) (v, w) =
        cheb_pair uplo A e ss (Suc (pred_numeral k)) (v, w)"
    by (simp only: numeral_eq_Suc)
  also note cheb_pair_Suc [OF assms]
  finally show ?thesis .
qed

lemmas cheb_eval = chebyshev_column_def cheb_pair_numeral cheb_sigma_numeral

lemmas filter_eval =
  filter_cheb_def degmax_of_def Let_def GetDiagonal_def ShiftDiagonal_def Entry_def
  AssertValidSubmatrix_def View_def search_nan_def Hemm_def hemm_column_def HermitianEntry_def
  deflate_first_def skip_degrees.simps filter_loop.simps filter_step_def deflate_def
  CopyView_def SetDiagonal_def EntrywiseNorm_def upt_rec
  outcome_of_def A_of_def V_of_def W_of_def

lemmas valid_eval =
  valid_call_def wf_matrix_def valid_schedule_def degmax_of_def INT_MAX_def

section \<open>The claims\<close>

text \<open>
  Claim C1. A call on three vectors with the schedule \<open>[1, 2, 3]\<close> and \<open>deg = 3\<close> leaves in
  each of the three columns of \<open>W\<close> what a call with no schedule and \<open>deg = k + 1\<close> on the
  single column \<open>start + k\<close> leaves there, \<open>k = 0, 1, 2\<close>: both the call on the same \<open>V\<close> and
  \<open>W\<close> with that column as its active range, and the call on the two matrices that hold
  that column alone. The choice of \<open>lower\<close>, \<open>upper\<close> and \<open>lambda\<close> is well-conditioned
  when no call is stopped by the NaN scan; then all calls return.
\<close>

theorem filter_schedule_agrees_with_single_calls:
  assumes valid: "valid_call A V W start 3 3 (Some [1, 2, 3]) 3 lambda lower upper"
    and batched:
      "outcome_of (filter_cheb isnan uplo A V W start 3 3 (Some [1, 2, 3]) 3
         lambda lower upper) \<noteq> Exit 1"
    and k: "k < 3"
    and range:
      "outcome_of (filter_cheb isnan uplo A V W (start + int k) 1 (int k + 1) None deglen
         lambda lower upper) \<noteq> Exit 1"
    and column:
      "outcome_of (filter_cheb isnan uplo A (column_matrix V (nat start + k))
         (column_matrix W (nat start + k)) 0 1 (int k + 1) None deglen
         lambda lower upper) \<noteq> Exit 1"
  shows "(\<exists>cost. outcome_of (filter_cheb isnan uplo A V W start 3 3 (Some [1, 2, 3]) 3
            lambda lower upper) = Returned cost) \<and>
         (\<exists>cost. outcome_of (filter_cheb isnan uplo A V W (start + int k) 1 (int k + 1) None
            deglen lambda lower upper) = Returned cost) \<and>
         (\<exists>cost. outcome_of (filter_cheb isnan uplo A (column_matrix V (nat start + k))
            (column_matrix W (nat start + k)) 0 1 (int k + 1) None deglen
            lambda lower upper) = Returned cost) \<and>
         Columns (W_of (filter_cheb isnan uplo A V W start 3 3 (Some [1, 2, 3]) 3
            lambda lower upper)) ! (nat start + k) =
         Columns (W_of (filter_cheb isnan uplo A V W (start + int k) 1 (int k + 1) None
            deglen lambda lower upper)) ! (nat start + k) \<and>
         Columns (W_of (filter_cheb isnan uplo A V W start 3 3 (Some [1, 2, 3]) 3
            lambda lower upper)) ! (nat start + k) =
         Columns (W_of (filter_cheb isnan uplo A (column_matrix V (nat start + k))
            (column_matrix W (nat start + k)) 0 1 (int k + 1) None deglen
            lambda lower upper)) ! 0"
proof -
  let ?B = "filter_cheb isnan uplo A V W start 3 3 (Some [1, 2, 3]) 3 lambda lower upper"
  let ?R = "filter_cheb isnan uplo A V W (start + int k) 1 (int k + 1) None deglen
              lambda lower upper"
  let ?C = "filter_cheb isnan uplo A (column_matrix V (nat start + k))
              (column_matrix W (nat start + k)) 0 1 (int k + 1) None deglen
              lambda lower upper"
  let ?d = "nat (int k + 1)"
  let ?v = "Columns V ! (nat start + k)" and ?w = "Columns W ! (nat start + k)"
  have st: "0 \<le> start" using valid by (simp add: valid_call_def)
  have valid1: "valid_call A V W (start + int k) 1 (int k + 1) None deglen lambda lower upper"
    using valid k by (simp add: valid_call_def valid_schedule_def degmax_of_def INT_MAX_def)
  have "start + 3 \<le> int (Width V)" "start + 3 \<le> int (Width W)"
    "length (Columns V) = Width V" "length (Columns W) = Width W"
    using valid by (simp_all add: valid_call_def wf_matrix_def)
  then have inV: "nat start + k < length (Columns V)"
    and inW: "nat start + k < length (Columns W)"
    using k st by linarith+
  have "length ?v = Height V" "length ?w = Height W"
    using valid inV inW by (simp_all add: valid_call_def wf_matrix_def list_all_length)
  then have wfc: "wf_matrix (column_matrix V (nat start + k))"
    "wf_matrix (column_matrix W (nat start + k))"
    by (simp_all add: wf_matrix_def column_matrix_def)
  have parts: "wf_matrix A" "Height A = Width A" "Height A \<le> Height V" "Height A \<le> Height W"
    "lambda \<noteq> (upper + lower) / (1 + 1)"
    using valid by (simp_all add: valid_call_def)
  have valid2: "valid_call A (column_matrix V (nat start + k))
      (column_matrix W (nat start + k)) 0 1 (int k + 1) None deglen lambda lower upper"
    unfolding valid_call_def
    using parts wfc k
    by (simp add: valid_schedule_def degmax_of_def INT_MAX_def column_matrix_def)
  have cd: "column_degree 3 (Some [1, 2, 3]) 3 k = int k + 1"
  proof -
    from k have "k = 0 \<or> k = 1 \<or> k = 2" by auto
    then show ?thesis by (auto simp: column_degree_def)
  qed
  have idx: "nat (start + int k) + 0 = nat start + k" using st by (simp add: nat_add_distrib)
  have k3: "k < nat 3" using k by simp
  have B: "Columns (W_of ?B) ! (nat start + k) =
        chebyshev_column uplo A lambda lower upper ?d ?v ?w"
    using filter_cheb_valid_proj(3) [OF valid batched k3] by (simp only: cd)
  have "Columns (W_of ?R) ! (nat (start + int k) + 0) =
        chebyshev_column uplo A lambda lower upper
          (nat (column_degree (int k + 1) None deglen 0))
          (Columns V ! (nat (start + int k) + 0)) (Columns W ! (nat (start + int k) + 0))"
    by (rule filter_cheb_valid_proj(3) [OF valid1 range]) simp
  then have R: "Columns (W_of ?R) ! (nat start + k) =
        chebyshev_column uplo A lambda lower upper ?d ?v ?w"
    unfolding idx by (simp add: column_degree_def)
  have "Columns (W_of ?C) ! (nat 0 + 0) =
        chebyshev_column uplo A lambda lower upper
          (nat (column_degree (int k + 1) None deglen 0))
          (Columns (column_matrix V (nat start + k)) ! (nat 0 + 0))
          (Columns (column_matrix W (nat start + k)) ! (nat 0 + 0))"
    by (rule filter_cheb_valid_proj(3) [OF valid2 column]) simp
  then have C: "Columns (W_of ?C) ! 0 =
        chebyshev_column uplo A lambda lower upper ?d ?v ?w"
    by (simp add: column_degree_def column_matrix_def)
  from filter_cheb_valid_proj(1) [OF valid batched] filter_cheb_valid_proj(1) [OF valid1 range]
    filter_cheb_valid_proj(1) [OF valid2 column] B R C
  show ?thesis by auto
qed

theorem filter_schedule_agrees_with_single_calls_witness:
  "valid_call ex_A ex_V ex_W 0 3 3 (Some [1, 2, 3]) 3 5 0 2 \<and>
   outcome_of (filter_cheb (\<lambda>x. False) LOWER ex_A ex_V ex_W 0 3 3 (Some [1, 2, 3]) 3 5 0 2) =
     Returned 6 \<and>
   Columns (W_of (filter_cheb (\<lambda>x. False) LOWER ex_A ex_V ex_W 0 3 3 (Some [1, 2, 3]) 3
     5 0 2)) ! 0 =
   Columns (W_of (filter_cheb (\<lambda>x. False) LOWER ex_A ex_V ex_W 0 1 1 None 0 5 0 2)) ! 0 \<and>
   Columns (W_of (filter_cheb (\<lambda>x. False) LOWER ex_A ex_V ex_W 0 3 3 (Some [1, 2, 3]) 3
     5 0 2)) ! 1 =
   Columns (W_of (filter_cheb (\<lambda>x. False) LOWER ex_A ex_V ex_W 1 1 2 None 0 5 0 2)) ! 1 \<and>
   Columns (W_of (filter_cheb (\<lambda>x. False) LOWER ex_A ex_V ex_W 0 3 3 (Some [1, 2, 3]) 3
     5 0 2)) ! 2 =
   Columns (W_of (filter_cheb (\<lambda>x. False) LOWER ex_A ex_V ex_W 2 1 3 None 0 5 0 2)) ! 2 \<and>
   Columns (W_of (filter_cheb (\<lambda>x. False) LOWER ex_A ex_V ex_W 0 3 3 (Some [1, 2, 3]) 3
     5 0 2)) ! 2 =
   Columns (W_of (filter_cheb (\<lambda>x. False) LOWER ex_A (column_matrix ex_V 2)
     (column_matrix ex_W 2) 0 1 3 None 0 5 0 2)) ! 0 \<and>
   Columns (W_of (filter_cheb (\<lambda>x. False) LOWER ex_A (column_matrix ex_V 2)
     (column_matrix ex_W 2) 0 1 3 None 0 5 0 2)) ! 0 = [23 / 122, 75 / 244]"
proof -
  have v: "valid_call ex_A ex_V ex_W 0 3 3 (Some [1, 2, 3]) 3 5 0 2"
    by (simp add: valid_eval ex_A_def ex_V_def ex_W_def)
  have b: "outcome_of (filter_cheb (\<lambda>x. False) LOWER ex_A ex_V ex_W 0 3 3 (Some [1, 2, 3]) 3
             5 0 2) = Returned 6"
    by (simp add: filter_eval ex_A_def ex_V_def ex_W_def)
  have r0: "outcome_of (filter_cheb (\<lambda>x. False) LOWER ex_A ex_V ex_W (0 + int 0) 1 (int 0 + 1)
              None 0 5 0 2) \<noteq> Exit 1"
    by (simp add: filter_eval ex_A_def ex_V_def ex_W_def)
  have r1: "outcome_of (filter_cheb (\<lambda>x. False) LOWER ex_A ex_V ex_W (0 + int 1) 1 (int 1 + 1)
              None 0 5 0 2) \<noteq> Exit 1"
    by (simp add: filter_eval ex_A_def ex_V_def ex_W_def)
  have r2: "outcome_of (filter_cheb (\<lambda>x. False) LOWER ex_A ex_V ex_W (0 + int 2) 1 (int 2 + 1)
              None 0 5 0 2) \<noteq> Exit 1"
    by (simp add: filter_eval ex_A_def ex_V_def ex_W_def)
  have c0: "outcome_of (filter_cheb (\<lambda>x. False) LOWER ex_A (column_matrix ex_V (nat 0 + 0))
              (column_matrix ex_W (nat 0 + 0)) 0 1 (int 0 + 1) None 0 5 0 2) \<noteq> Exit 1"
    by (simp add: filter_eval column_matrix_def ex_A_def ex_V_def ex_W_def)
  have c1: "outcome_of (filter_cheb (\<lambda>x. False) LOWER ex_A (column_matrix ex_V (nat 0 + 1))
              (column_matrix ex_W (nat 0 + 1)) 0 1 (int 1 + 1) None 0 5 0 2) \<noteq> Exit 1"
    by (simp add: filter_eval column_matrix_def ex_A_def ex_V_def ex_W_def)
  have c2: "outcome_of (filter_cheb (\<lambda>x. False) LOWER ex_A (column_matrix ex_V (nat 0 + 2))
              (column_matrix ex_W (nat 0 + 2)) 0 1 (int 2 + 1) None 0 5 0 2) \<noteq> Exit 1"
    by (simp add: filter_eval column_matrix_def ex_A_def ex_V_def ex_W_def)
  have b': "outcome_of (filter_cheb (\<lambda>x. False) LOWER ex_A ex_V ex_W 0 3 3 (Some [1, 2, 3]) 3
              5 0 2) \<noteq> Exit 1"
    using b by simp
  have e: "Columns (W_of (filter_cheb (\<lambda>x. False) LOWER ex_A (column_matrix ex_V 2)
     (column_matrix ex_W 2) 0 1 3 None 0 5 0 2)) ! 0 = [23 / 122, 75 / 244]"
    by (simp add: filter_eval column_matrix_def ex_A_def ex_V_def ex_W_def)
  have q0: "Columns (W_of (filter_cheb (\<lambda>x. False) LOWER ex_A ex_V ex_W 0 3 3
      (Some [1, 2, 3]) 3 5 0 2)) ! 0 =
    Columns (W_of (filter_cheb (\<lambda>x. False) LOWER ex_A ex_V ex_W 0 1 1 None 0 5 0 2)) ! 0"
    using filter_schedule_agrees_with_single_calls [OF v b' _ r0 c0] by simp
  have q1: "Columns (W_of (filter_cheb (\<lambda>x. False) LOWER ex_A ex_V ex_W 0 3 3
      (Some [1, 2, 3]) 3 5 0 2)) ! 1 =
    Columns (W_of (filter_cheb (\<lambda>x. False) LOWER ex_A ex_V ex_W 1 1 2 None 0 5 0 2)) ! 1"
    using filter_schedule_agrees_with_single_calls [OF v b' _ r1 c1] by simp
  have q2: "Columns (W_of (filter_cheb (\<lambda>x. False) LOWER ex_A ex_V ex_W 0 3 3
      (Some [1, 2, 3]) 3 5 0 2)) ! 2 =
    Columns (W_of (filter_cheb (\<lambda>x. False) LOWER ex_A ex_V ex_W 2 1 3 None 0 5 0 2)) ! 2"
    using filter_schedule_agrees_with_single_calls [OF v b' _ r2 c2]
    by (simp add: numeral_2_eq_2)
  have q3: "Columns (W_of (filter_cheb (\<lambda>x. False) LOWER ex_A ex_V ex_W 0 3 3
      (Some [1, 2, 3]) 3 5 0 2)) ! 2 =
    Columns (W_of (filter_cheb (\<lambda>x. False) LOWER ex_A (column_matrix ex_V 2)
     (column_matrix ex_W 2) 0 1 3 None 0 5 0 2)) ! 0"
    using filter_schedule_agrees_with_single_calls [OF v b' _ r2 c2]
    by (auto simp add: numeral_2_eq_2)
  show ?thesis using v b q0 q1 q2 q3 e by blast
qed

text \<open>
  Claim C2. The claim is that the vector at position \<open>k\<close> is filtered with degree
  \<open>min(degrees[k], deg)\<close>. With the schedule \<open>[1, 5]\<close> and \<open>deg = 3\<close> the code runs the loop up
  to \<open>degmax = max(3, 5) = 5\<close> and gives the second vector degree 5: its column of \<open>W\<close> is
  the filtered vector of degree 5, not the one of degree \<open>min(5, 3) = 3\<close>, and the cost
  metric is \<open>2 + 1 + 1 + 1 + 1 = 6\<close>.
\<close>

theorem filter_schedule_entry_above_deg:
  "valid_call ex_A ex_V ex_W 0 2 3 (Some [1, 5]) 2 5 0 2 \<and>
   filter_cheb (\<lambda>x. False) LOWER ex_A ex_V ex_W 0 2 3 (Some [1, 5]) 2 5 0 2 =
     (Returned 6, ex_A,
      \<lparr>Height = 2, Width = 3, Columns = [[1, 0], [144 / 1921, 233 / 1921], [1, 1]]\<rparr>,
      \<lparr>Height = 2, Width = 3,
         Columns = [[1 / 4, 1 / 4], [725 / 15124, 587 / 7562], [9, 9]]\<rparr>) \<and>
   chebyshev_column LOWER ex_A 5 0 2 5 [0, 1] [8, 8] = [725 / 15124, 587 / 7562] \<and>
   chebyshev_column LOWER ex_A 5 0 2 (nat (min 5 3)) [0, 1] [8, 8] = [29 / 244, 23 / 122]"
proof -
  have "valid_call ex_A ex_V ex_W 0 2 3 (Some [1, 5]) 2 5 0 2"
    by (simp add: valid_eval ex_A_def ex_V_def ex_W_def)
  moreover have "filter_cheb (\<lambda>x. False) LOWER ex_A ex_V ex_W 0 2 3 (Some [1, 5]) 2 5 0 2 =
     (Returned 6, ex_A,
      \<lparr>Height = 2, Width = 3, Columns = [[1, 0], [144 / 1921, 233 / 1921], [1, 1]]\<rparr>,
      \<lparr>Height = 2, Width = 3,
         Columns = [[1 / 4, 1 / 4], [725 / 15124, 587 / 7562], [9, 9]]\<rparr>)"
    by (simp add: filter_eval ex_A_def ex_V_def ex_W_def)
  moreover have "chebyshev_column LOWER ex_A 5 0 2 5 [0, 1] [8, 8] = [725 / 15124, 587 / 7562]"
    by (simp add: cheb_eval filter_eval ex_A_def)
  moreover have "chebyshev_column LOWER ex_A 5 0 2 (nat (min 5 3)) [0, 1] [8, 8] = [29 / 244, 23 / 122]"
    by (simp add: cheb_eval filter_eval ex_A_def)
  ultimately show ?thesis by blast
qed

text \<open>
  Claim C3. On a valid call that the NaN scan does not stop, the routine returns, and
  every column \<open>start + k\<close> of the active range holds in \<open>W\<close> the filtered vector of its
  degree: the result of the recurrence on that column, copied from \<open>V\<close> when the last
  step, of even degree, wrote there.
\<close>

theorem filter_result_in_W:
  assumes "valid_call A V W start width deg degrees deglen lambda lower upper"
    and "outcome_of (filter_cheb isnan uplo A V W start width deg degrees deglen
           lambda lower upper) \<noteq> Exit 1"
    and "k < nat width"
  shows "(\<exists>cost. outcome_of (filter_cheb isnan uplo A V W start width deg degrees deglen
            lambda lower upper) = Returned cost) \<and>
         Columns (W_of (filter_cheb isnan uplo A V W start width deg degrees deglen
            lambda lower upper)) ! (nat start + k) =
           chebyshev_column uplo A lambda lower upper
             (nat (column_degree deg degrees deglen k))
             (Columns V ! (nat start + k)) (Columns W ! (nat start + k))"
  using filter_cheb_valid_proj(1) [OF assms(1,2)] filter_cheb_valid_proj(3) [OF assms]
  by blast

theorem filter_result_in_W_witness:
  "valid_call ex_A ex_V ex_W 0 3 4 (Some [2, 3]) 2 5 0 2 \<and>
   outcome_of (filter_cheb (\<lambda>x. False) LOWER ex_A ex_V ex_W 0 3 4 (Some [2, 3]) 2 5 0 2) = Returned 9 \<and>
   Columns (W_of (filter_cheb (\<lambda>x. False) LOWER ex_A ex_V ex_W 0 3 4 (Some [2, 3]) 2 5 0 2)) ! 0 =
     chebyshev_column LOWER ex_A 5 0 2 2 [1, 0] [7, 7] \<and>
   Columns (W_of (filter_cheb (\<lambda>x. False) LOWER ex_A ex_V ex_W 0 3 4 (Some [2, 3]) 2 5 0 2)) ! 1 =
     chebyshev_column LOWER ex_A 5 0 2 3 [0, 1] [8, 8] \<and>
   Columns (W_of (filter_cheb (\<lambda>x. False) LOWER ex_A ex_V ex_W 0 3 4 (Some [2, 3]) 2 5 0 2)) ! 2 =
     chebyshev_column LOWER ex_A 5 0 2 4 [1, 1] [9, 9] \<and>
   chebyshev_column LOWER ex_A 5 0 2 2 [1, 0] [7, 7] = [3 / 31, 6 / 31]"
proof -
  have v: "valid_call ex_A ex_V ex_W 0 3 4 (Some [2, 3]) 2 5 0 2"
    by (simp add: valid_eval ex_A_def ex_V_def ex_W_def)
  have r: "outcome_of (filter_cheb (\<lambda>x. False) LOWER ex_A ex_V ex_W 0 3 4 (Some [2, 3]) 2 5 0 2) = Returned 9"
    by (simp add: filter_eval ex_A_def ex_V_def ex_W_def)
  then have n: "outcome_of (filter_cheb (\<lambda>x. False) LOWER ex_A ex_V ex_W 0 3 4 (Some [2, 3]) 2 5 0 2) \<noteq> Exit 1"
    by simp
  have e: "chebyshev_column LOWER ex_A 5 0 2 2 [1, 0] [7, 7] = [3 / 31, 6 / 31]"
    by (simp add: cheb_eval filter_eval ex_A_def)
  have cols: "Columns ex_V = [[1, 0], [0, 1], [1, 1]]" "Columns ex_W = [[7, 7], [8, 8], [9, 9]]"
    by (simp_all add: ex_V_def ex_W_def)
  from filter_result_in_W [OF v n, of 0] filter_result_in_W [OF v n, of 1] filter_result_in_W [OF v n, of 2]
  show ?thesis using v r e by (simp add: column_degree_def cols numeral_2_eq_2)
qed

text \<open>
  Claim C4. On a valid call that the NaN scan does not stop, the routine returns and \<open>A\<close>
  is what it was on entry: writing the saved diagonal back undoes the shift, whatever
  the arithmetic of the scalars.
\<close>

theorem filter_restores_operator:
  assumes "valid_call A V W start width deg degrees deglen lambda lower upper"
    and "outcome_of (filter_cheb isnan uplo A V W start width deg degrees deglen
           lambda lower upper) \<noteq> Exit 1"
  shows "(\<exists>cost. outcome_of (filter_cheb isnan uplo A V W start width deg degrees deglen
            lambda lower upper) = Returned cost) \<and>
         A_of (filter_cheb isnan uplo A V W start width deg degrees deglen
            lambda lower upper) = A \<and>
         SetDiagonal (ShiftDiagonal A (- ((upper + lower) / (1 + 1)))) (GetDiagonal A) = A"
  using filter_cheb_valid_proj(1,2) [OF assms] SetDiagonal_ShiftDiagonal [of A]
  by blast

theorem filter_restores_operator_witness:
  "valid_call ex_A ex_V ex_W 0 3 2 (Some [1, 1, 2]) 3 5 0 2 \<and>
   outcome_of (filter_cheb (\<lambda>x. False) LOWER ex_A ex_V ex_W 0 3 2 (Some [1, 1, 2]) 3 5 0 2) = Returned 4 \<and>
   A_of (filter_cheb (\<lambda>x. False) LOWER ex_A ex_V ex_W 0 3 2 (Some [1, 1, 2]) 3 5 0 2) = ex_A \<and>
   ShiftDiagonal ex_A (- ((2 + 0) / (1 + 1))) =
     \<lparr>Height = 2, Width = 2, Columns = [[1, 1], [1, 2]]\<rparr>"
proof -
  have v: "valid_call ex_A ex_V ex_W 0 3 2 (Some [1, 1, 2]) 3 5 0 2"
    by (simp add: valid_eval ex_A_def ex_V_def ex_W_def)
  have r: "outcome_of (filter_cheb (\<lambda>x. False) LOWER ex_A ex_V ex_W 0 3 2 (Some [1, 1, 2]) 3 5 0 2) = Returned 4"
    by (simp add: filter_eval ex_A_def ex_V_def ex_W_def)
  then have n: "outcome_of (filter_cheb (\<lambda>x. False) LOWER ex_A ex_V ex_W 0 3 2 (Some [1, 1, 2]) 3 5 0 2) \<noteq> Exit 1"
    by simp
  have s: "ShiftDiagonal ex_A (- ((2 + 0) / (1 + 1))) =
     \<lparr>Height = 2, Width = 2, Columns = [[1, 1], [1, 2]]\<rparr>"
    by (simp add: filter_eval ex_A_def)
  from filter_restores_operator [OF v n] show ?thesis using v r s by simp
qed

text \<open>
  Claim C5. On a valid call with no schedule that the NaN scan does not stop, the cost
  metric that is returned is \<open>width * deg\<close>.
\<close>

theorem filter_cost_without_schedule:
  assumes "valid_call A V W start width deg None deglen lambda lower upper"
    and "outcome_of (filter_cheb isnan uplo A V W start width deg None deglen
           lambda lower upper) \<noteq> Exit 1"
  shows "outcome_of (filter_cheb isnan uplo A V W start width deg None deglen
           lambda lower upper) = Returned (width * deg)"
  using filter_cheb_valid_proj(1) [OF assms] by auto

theorem filter_cost_without_schedule_witness:
  "valid_call ex_A ex_V ex_W 0 3 4 None 0 5 0 2 \<and>
   outcome_of (filter_cheb (\<lambda>x. False) LOWER ex_A ex_V ex_W 0 3 4 None 0 5 0 2) \<noteq> Exit 1 \<and>
   outcome_of (filter_cheb (\<lambda>x. False) LOWER ex_A ex_V ex_W 0 3 4 None 0 5 0 2) = Returned 12"
proof -
  have v: "valid_call ex_A ex_V ex_W 0 3 4 None 0 5 0 2"
    by (simp add: valid_eval ex_A_def ex_V_def ex_W_def)
  have n: "outcome_of (filter_cheb (\<lambda>x. False) LOWER ex_A ex_V ex_W 0 3 4 None 0 5 0 2) \<noteq> Exit 1"
    by (simp add: filter_eval ex_A_def ex_V_def ex_W_def)
  from filter_cost_without_schedule [OF v n] show ?thesis using v n by simp
qed

text \<open>
  Claim C6. With \<open>deg = 0\<close> and no schedule the call returns 0 and leaves \<open>A\<close>, \<open>V\<close> and \<open>W\<close>
  as they are.
\<close>

theorem filter_degmax_zero_noop:
  "filter_cheb isnan uplo A V W start width 0 None deglen lambda lower upper =
     (Returned 0, A, V, W)"
  by (simp add: filter_cheb_def degmax_of_def)

text \<open>
  Claim C7. The claim is that the NaN scan is off by default, so that the routine
  never stops the job. \<^verbatim>\<open>SEARCH_NAN\<close> is defined on line 17 of the header, so the scan
  is compiled in: a valid call on a vector that holds a NaN ends in \<^verbatim>\<open>exit(1)\<close>, with the
  diagonal of \<open>A\<close> shifted.
\<close>

theorem filter_nan_scan_aborts_by_default:
  "valid_call nan_A nan_col zero_col 0 1 1 None 0 (Fin 5) (Fin 0) (Fin 2) \<and>
   filter_cheb isnan_nreal LOWER nan_A nan_col zero_col 0 1 1 None 0 (Fin 5) (Fin 0) (Fin 2) =
     (Exit 1, \<lparr>Height = 1, Width = 1, Columns = [[Fin 1]]\<rparr>, nan_col, zero_col)"
  by (simp add: valid_eval filter_eval nan_A_def nan_col_def zero_col_def one_nreal_def zero_nreal_def)

text \<open>
  Claim C7, as amended. The NaN scan is compiled in as the code stands: in every call
  with a maximum degree other than 0 whose views are valid, a NaN in the norm of \<open>V\<close>,
  \<open>W\<close> or the shifted \<open>A\<close> before the first multiply ends the call with \<^verbatim>\<open>exit(1)\<close>, and so
  does one after the first multiply; \<open>A\<close> is left shifted.
\<close>

theorem filter_nan_scan_compiled_in:
  assumes "degmax_of deg degrees deglen = Some degmax" and "degmax \<noteq> 0"
    and "AssertValidSubmatrix V 0 0 (int (Height A)) (start + width)"
    and "AssertValidSubmatrix W 0 0 (int (Height A)) (start + width)"
    and "0 \<le> start" and "0 \<le> width"
  shows "(search_nan isnan V W (ShiftDiagonal A (- ((upper + lower) / (1 + 1)))) \<longrightarrow>
            filter_cheb isnan uplo A V W start width deg degrees deglen lambda lower upper =
              (Exit 1, ShiftDiagonal A (- ((upper + lower) / (1 + 1))), V, W)) \<and>
         (\<not> search_nan isnan V W (ShiftDiagonal A (- ((upper + lower) / (1 + 1)))) \<and>
          Hemm uplo ((upper - lower) / (1 + 1) / (lambda - (upper + lower) / (1 + 1)) /
                     ((upper - lower) / (1 + 1)))
            (ShiftDiagonal A (- ((upper + lower) / (1 + 1)))) V
            \<lparr>vcol = nat start, vheight = Height A, vwidth = nat width\<rparr> 0 W
            \<lparr>vcol = nat start, vheight = Height A, vwidth = nat width\<rparr> = Some W' \<and>
          search_nan isnan V W' (ShiftDiagonal A (- ((upper + lower) / (1 + 1)))) \<longrightarrow>
            filter_cheb isnan uplo A V W start width deg degrees deglen lambda lower upper =
              (Exit 1, ShiftDiagonal A (- ((upper + lower) / (1 + 1))), V, W'))"
  unfolding filter_cheb_run [OF assms] Let_def by simp

theorem filter_nan_scan_compiled_in_witness:
  "valid_call nan_A one_col nan_col 0 1 1 None 0 (Fin 5) (Fin 0) (Fin 2) \<and>
   filter_cheb isnan_nreal LOWER nan_A one_col nan_col 0 1 1 None 0 (Fin 5) (Fin 0) (Fin 2) =
     (Exit 1, \<lparr>Height = 1, Width = 1, Columns = [[Fin 1]]\<rparr>, one_col, nan_col) \<and>
   valid_call nan_A one_col zero_col 0 1 3 None 0 (Fin 5) (Fin 1) (Fin 1) \<and>
   \<not> search_nan isnan_nreal one_col zero_col
       (ShiftDiagonal nan_A (- ((Fin 1 + Fin 1) / (1 + 1)))) \<and>
   (Fin 1 - Fin 1) / (1 + 1) / (Fin 5 - (Fin 1 + Fin 1) / (1 + 1)) /
     ((Fin 1 - Fin 1) / (1 + 1)) = NaN \<and>
   filter_cheb isnan_nreal LOWER nan_A one_col zero_col 0 1 3 None 0 (Fin 5) (Fin 1) (Fin 1) =
     (Exit 1, \<lparr>Height = 1, Width = 1, Columns = [[Fin 1]]\<rparr>, one_col, nan_col)"
proof -
  have v1: "valid_call nan_A one_col nan_col 0 1 1 None 0 (Fin 5) (Fin 0) (Fin 2)"
    by (simp add: valid_eval nan_A_def one_col_def nan_col_def one_nreal_def)
  have v2: "valid_call nan_A one_col zero_col 0 1 3 None 0 (Fin 5) (Fin 1) (Fin 1)"
    by (simp add: valid_eval nan_A_def one_col_def zero_col_def one_nreal_def)
  have d1: "degmax_of 1 None 0 = Some 1" "(1::int) \<noteq> 0"
    and d3: "degmax_of 3 None 0 = Some 3" "(3::int) \<noteq> 0"
    and z: "(0::int) \<le> 0" "(0::int) \<le> 1"
    by (simp_all add: degmax_of_def)
  have a: "AssertValidSubmatrix one_col 0 0 (int (Height nan_A)) (0 + 1)"
    "AssertValidSubmatrix nan_col 0 0 (int (Height nan_A)) (0 + 1)"
    "AssertValidSubmatrix zero_col 0 0 (int (Height nan_A)) (0 + 1)"
    by (simp_all add: AssertValidSubmatrix_def nan_A_def one_col_def nan_col_def zero_col_def)
  have s1: "ShiftDiagonal nan_A (- ((Fin 2 + Fin 0) / (1 + 1))) =
     \<lparr>Height = 1, Width = 1, Columns = [[Fin 1]]\<rparr>"
    by (simp add: filter_eval nan_A_def one_nreal_def)
  have s2: "ShiftDiagonal nan_A (- ((Fin 1 + Fin 1) / (1 + 1))) =
     \<lparr>Height = 1, Width = 1, Columns = [[Fin 1]]\<rparr>"
    by (simp add: filter_eval nan_A_def one_nreal_def)
  have n1: "search_nan isnan_nreal one_col nan_col
              \<lparr>Height = 1, Width = 1, Columns = [[Fin 1]]\<rparr>"
    by (simp add: search_nan_def EntrywiseNorm_def one_col_def nan_col_def zero_nreal_def)
  have n2: "\<not> search_nan isnan_nreal one_col zero_col
              \<lparr>Height = 1, Width = 1, Columns = [[Fin 1]]\<rparr>"
    by (simp add: search_nan_def EntrywiseNorm_def one_col_def zero_col_def zero_nreal_def)
  have al: "(Fin 1 - Fin 1) / (1 + 1) / (Fin 5 - (Fin 1 + Fin 1) / (1 + 1)) /
              ((Fin 1 - Fin 1) / (1 + 1)) = NaN"
    by (simp add: one_nreal_def minus_nreal_def)
  have h: "Hemm LOWER ((Fin 1 - Fin 1) / (1 + 1) / (Fin 5 - (Fin 1 + Fin 1) / (1 + 1)) /
                     ((Fin 1 - Fin 1) / (1 + 1)))
            \<lparr>Height = 1, Width = 1, Columns = [[Fin 1]]\<rparr> one_col
            \<lparr>vcol = nat 0, vheight = Height nan_A, vwidth = nat 1\<rparr> 0 zero_col
            \<lparr>vcol = nat 0, vheight = Height nan_A, vwidth = nat 1\<rparr> = Some nan_col"
    unfolding al
    by (simp add: filter_eval nan_A_def one_col_def zero_col_def nan_col_def zero_nreal_def)
  have f1: "filter_cheb isnan_nreal LOWER nan_A one_col nan_col 0 1 1 None 0
              (Fin 5) (Fin 0) (Fin 2) =
     (Exit 1, \<lparr>Height = 1, Width = 1, Columns = [[Fin 1]]\<rparr>, one_col, nan_col)"
    using filter_nan_scan_compiled_in [OF d1 a(1,2) z,
        of isnan_nreal "Fin 2" "Fin 0" LOWER "Fin 5" nan_col]
    unfolding s1 using n1 by simp
  have f2: "filter_cheb isnan_nreal LOWER nan_A one_col zero_col 0 1 3 None 0
              (Fin 5) (Fin 1) (Fin 1) =
     (Exit 1, \<lparr>Height = 1, Width = 1, Columns = [[Fin 1]]\<rparr>, one_col, nan_col)"
    using filter_nan_scan_compiled_in [OF d3 a(1,3) z,
        of isnan_nreal "Fin 1" "Fin 1" LOWER "Fin 5" nan_col]
    unfolding s2 using n1 n2 h by simp
  show ?thesis using v1 v2 f1 f2 n2 al unfolding s2 by blast
qed

text \<open>
  Claim C8. When the maximum degree is not 0 and \<open>V\<close> or \<open>W\<close> does not have \<open>start + width\<close>
  columns and \<open>N\<close> rows, the routine stops in the range check with the diagonal of \<open>A\<close>
  shifted by \<open>- c\<close>: the check comes after the shift, and nothing restores \<open>A\<close>.
\<close>

theorem filter_range_check_after_shift:
  assumes "degmax_of deg degrees deglen = Some degmax" and "degmax \<noteq> 0"
    and "\<not> (AssertValidSubmatrix V 0 0 (int (Height A)) (start + width) \<and>
            AssertValidSubmatrix W 0 0 (int (Height A)) (start + width))"
  shows "filter_cheb isnan uplo A V W start width deg degrees deglen lambda lower upper =
           (LogicError, ShiftDiagonal A (- ((upper + lower) / (1 + 1))), V, W)"
  using assms by (auto simp add: filter_cheb_def Let_def)

theorem filter_range_check_after_shift_witness:
  "degmax_of 3 None 0 = Some 3 \<and>
   \<not> AssertValidSubmatrix ex_V 0 0 (int (Height ex_A)) (1 + 3) \<and>
   filter_cheb (\<lambda>x. False) LOWER ex_A ex_V ex_W 1 3 3 None 0 5 0 2 =
     (LogicError, \<lparr>Height = 2, Width = 2, Columns = [[1, 1], [1, 2]]\<rparr>, ex_V, ex_W) \<and>
   \<lparr>Height = 2, Width = 2, Columns = [[1, 1], [1, 2]]\<rparr> \<noteq> ex_A"
proof -
  have d: "degmax_of 3 None 0 = Some 3" "(3::int) \<noteq> 0" by (simp_all add: degmax_of_def)
  have a: "\<not> (AssertValidSubmatrix ex_V 0 0 (int (Height ex_A)) (1 + 3) \<and>
              AssertValidSubmatrix ex_W 0 0 (int (Height ex_A)) (1 + 3))"
    by (simp add: AssertValidSubmatrix_def ex_V_def ex_A_def)
  have a': "\<not> AssertValidSubmatrix ex_V 0 0 (int (Height ex_A)) (1 + 3)"
    by (simp add: AssertValidSubmatrix_def ex_V_def ex_A_def)
  have s: "ShiftDiagonal ex_A (- ((2 + 0) / (1 + 1))) =
     \<lparr>Height = 2, Width = 2, Columns = [[1, 1], [1, 2]]\<rparr>"
    by (simp add: filter_eval ex_A_def)
  have ne: "\<lparr>Height = 2, Width = 2, Columns = [[1, 1], [1, 2 :: real]]\<rparr> \<noteq> ex_A"
    by (simp add: ex_A_def)
  from filter_range_check_after_shift [OF d a, of "\<lambda>x. False" LOWER 5 0 2] show ?thesis
    unfolding s using d(1) a' ne by simp
qed

text \<open>
  Claim C9. The deflation after the first step and every iteration of the loop keep
  \<open>start + width\<close> and never move \<open>start\<close> back; a valid call, however it ends, leaves
  every column of \<open>V\<close> and \<open>W\<close> outside \<open>[start, start + width)\<close> as it was.
\<close>

theorem filter_active_range_frame:
  assumes valid: "valid_call A V W start width deg degrees deglen lambda lower upper"
    and out: "c < nat start \<or> nat start + nat width \<le> c"
  shows "(c < length (Columns V) \<longrightarrow>
            Columns (V_of (filter_cheb isnan uplo A V W start width deg degrees deglen
              lambda lower upper)) ! c = Columns V ! c) \<and>
         (c < length (Columns W) \<longrightarrow>
            Columns (W_of (filter_cheb isnan uplo A V W start width deg degrees deglen
              lambda lower upper)) ! c = Columns W ! c) \<and>
         st_start (deflate_first degrees deglen s) + st_width (deflate_first degrees deglen s) =
           st_start s + st_width s \<and>
         (filter_step uplo A' e sigma_scale degrees deglen i s = Some s' \<longrightarrow>
            st_start s' + st_width s' = st_start s + st_width s \<and> st_start s \<le> st_start s')"
  using filter_cheb_frame [OF valid out, of isnan uplo]
    deflate_first_sum [of degrees deglen s]
    filter_step_sum [of uplo A' e sigma_scale degrees deglen i s s']
    filter_step_start_mono [of uplo A' e sigma_scale degrees deglen i s s']
  by simp

theorem filter_active_range_frame_witness:
  "valid_call ex_A ex_V ex_W 1 1 4 (Some [2]) 1 5 0 2 \<and>
   outcome_of (filter_cheb (\<lambda>x. False) LOWER ex_A ex_V ex_W 1 1 4 (Some [2]) 1 5 0 2) = Returned 2 \<and>
   Columns (V_of (filter_cheb (\<lambda>x. False) LOWER ex_A ex_V ex_W 1 1 4 (Some [2]) 1 5 0 2)) ! 0 = [1, 0] \<and>
   Columns (V_of (filter_cheb (\<lambda>x. False) LOWER ex_A ex_V ex_W 1 1 4 (Some [2]) 1 5 0 2)) ! 2 = [1, 1] \<and>
   Columns (W_of (filter_cheb (\<lambda>x. False) LOWER ex_A ex_V ex_W 1 1 4 (Some [2]) 1 5 0 2)) ! 0 = [7, 7] \<and>
   Columns (W_of (filter_cheb (\<lambda>x. False) LOWER ex_A ex_V ex_W 1 1 4 (Some [2]) 1 5 0 2)) ! 2 = [9, 9] \<and>
   map_option st_start (filter_step LOWER ex_A 1 (1 / 4) (Some [2]) 1 2
     \<lparr>st_V = ex_V, st_W = ex_W, st_start = 1, st_width = 1, st_j = 0, st_sigma = 1 / 4,
      st_total = 1\<rparr>) = Some 2 \<and>
   map_option st_width (filter_step LOWER ex_A 1 (1 / 4) (Some [2]) 1 2
     \<lparr>st_V = ex_V, st_W = ex_W, st_start = 1, st_width = 1, st_j = 0, st_sigma = 1 / 4,
      st_total = 1\<rparr>) = Some 0"
proof -
  let ?s = "\<lparr>st_V = ex_V, st_W = ex_W, st_start = 1, st_width = 1, st_j = 0,
             st_sigma = 1 / 4 :: real, st_total = 1\<rparr>"
  have v: "valid_call ex_A ex_V ex_W 1 1 4 (Some [2]) 1 5 0 2"
    by (simp add: valid_eval ex_A_def ex_V_def ex_W_def)
  have r: "outcome_of (filter_cheb (\<lambda>x. False) LOWER ex_A ex_V ex_W 1 1 4 (Some [2]) 1 5 0 2) = Returned 2"
    by (simp add: filter_eval ex_A_def ex_V_def ex_W_def)
  have cols: "Columns ex_V ! 0 = [1, 0]" "Columns ex_V ! 2 = [1, 1]"
    "Columns ex_W ! 0 = [7, 7]" "Columns ex_W ! 2 = [9, 9]"
    "length (Columns ex_V) = 3" "length (Columns ex_W) = 3"
    by (simp_all add: ex_V_def ex_W_def)
  obtain s' where st: "filter_step LOWER ex_A 1 (1 / 4) (Some [2]) 1 2 ?s = Some s'"
    by (simp add: filter_eval ex_A_def ex_V_def ex_W_def)
  have fin: "st_width s' = 0"
    using st by (auto simp add: filter_eval ex_A_def ex_V_def ex_W_def)
  from filter_active_range_frame [OF v, of 0 "\<lambda>x. False" LOWER ?s ex_A 1 "1 / 4" 2 s']
    filter_active_range_frame [OF v, of 2 "\<lambda>x. False" LOWER ?s ex_A 1 "1 / 4" 2 s']
  show ?thesis using v r cols st fin by simp
qed

text \<open>
  Claim C10. With a schedule and \<open>deglen < 1\<close> the read of \<^verbatim>\<open>degrees[deglen-1]\<close>, which
  comes first, is outside the array: the call has no defined result.
\<close>

theorem filter_schedule_needs_entry:
  "deglen < 1 \<Longrightarrow>
   filter_cheb isnan uplo A V W start width deg (Some ds) deglen lambda lower upper =
     (Undefined, A, V, W)"
  by (simp add: filter_cheb_def degmax_of_def)

theorem filter_schedule_needs_entry_witness:
  "(0::int) < 1 \<and>
   filter_cheb (\<lambda>x. False) LOWER ex_A ex_V ex_W 0 3 3 (Some []) 0 5 0 2 = (Undefined, ex_A, ex_V, ex_W)"
  using filter_schedule_needs_entry [of 0 "\<lambda>x. False" LOWER ex_A ex_V ex_W 0 3 3 "[]" 5 0 2] by simp

end
